theory Spec2Isabelle
  imports Main "HOL-Library.Sublist"
begin

section \<open>Strings as the service uses them\<close>

text \<open>
  Python strings are modelled as HOL strings (lists of 8-bit characters). The character
  classes the code relies on (\<^verbatim>\<open>str.lower\<close>, \<^verbatim>\<open>str.isalnum\<close>, \<^verbatim>\<open>\d\<close>, \<^verbatim>\<open>\s\<close>,
  \<^verbatim>\<open>str.strip\<close>) are given on the ASCII range, where Python and the model agree; a
  character outside that range is left alone by \<open>lower\<close> and belongs to none of the
  classes.
\<close>

definition upper_letters :: string where
  "upper_letters = ''ABCDEFGHIJKLMNOPQRSTUVWXYZ''"

definition lower_letters :: string where
  "lower_letters = ''abcdefghijklmnopqrstuvwxyz''"

definition lower_char :: "char \<Rightarrow> char" where
  "lower_char c = (case map_of (zip upper_letters lower_letters) c of
                     Some d \<Rightarrow> d | None \<Rightarrow> c)"

definition lower :: "string \<Rightarrow> string" where
  "lower s = map lower_char s"

definition upper_char :: "char \<Rightarrow> char" where
  "upper_char c = (case map_of (zip lower_letters upper_letters) c of
                     Some d \<Rightarrow> d | None \<Rightarrow> c)"

definition upper :: "string \<Rightarrow> string" where
  "upper s = map upper_char s"

text \<open>\<^verbatim>\<open>sub in s\<close>: \<open>sub\<close> occurs in \<open>s\<close> as a contiguous block.\<close>

fun contains :: "string \<Rightarrow> string \<Rightarrow> bool" where
  "contains sub [] = (sub = [])"
| "contains sub (c # cs) = (prefix sub (c # cs) \<or> contains sub cs)"

section \<open>Generation jobs: submission (\<^verbatim>\<open>yue_service.start_generation_job\<close>)\<close>

text \<open>
  The options dictionary is read through \<^verbatim>\<open>options.get(key, default)\<close>; a key that is
  absent is \<open>None\<close> here. Only the keys that influence the job record, the genre text or
  the produced file names are kept.
\<close>

record options =
  vocal_type :: "string option"
  quality :: "string option"
  language :: "string option"
  title :: "string option"

definition no_options :: options where
  "no_options = \<lparr>vocal_type = None, quality = None, language = None, title = None\<rparr>"

definition get_vocal_type :: "options \<Rightarrow> string" where
  "get_vocal_type opts = (case vocal_type opts of None \<Rightarrow> ''female'' | Some v \<Rightarrow> v)"

text \<open>
  Lines 40 to 51 of \<^verbatim>\<open>start_generation_job\<close>: the vocal style is put in front of the
  genre text unless the lower-cased genre text already mentions it.
\<close>

definition process_vocal_style :: "options \<Rightarrow> string \<Rightarrow> string" where
  "process_vocal_style opts genre_txt =
     (let vt = get_vocal_type opts;
          genre_txt_lower = lower genre_txt
      in if vt = ''none'' then
           (if \<not> contains ''instrumental'' genre_txt_lower
            then ''instrumental, '' @ genre_txt else genre_txt)
         else if vt = ''male'' then
           (if \<not> contains ''male vocals'' genre_txt_lower
            then ''male vocals, '' @ genre_txt else genre_txt)
         else if vt = ''female'' then
           (if \<not> contains ''female vocals'' genre_txt_lower
            then ''female vocals, '' @ genre_txt else genre_txt)
         else genre_txt)"

section \<open>Generation jobs: reading progress from the output stream\<close>

subsection \<open>Exceptions\<close>

text \<open>
  Every exception that can reach the \<^verbatim>\<open>except Exception as e\<close> of a task runner is a
  value; \<open>str_of\<close> is Python's \<^verbatim>\<open>str(e)\<close>, the text the runner stores in the record.
  \<open>Raised msg\<close> stands for an exception thrown by a collaborator outside this
  repository (the separator library, the model download, the process launch); its
  message is whatever that collaborator chose, possibly the empty string, as for a bare
  \<^verbatim>\<open>assert\<close> or \<^verbatim>\<open>raise Exception()\<close>.
\<close>

datatype exn =
    ZeroDivisionError
  | OverflowError string
  | ImportError string
  | KeyError string
  | Raised string

fun str_of :: "exn \<Rightarrow> string" where
  "str_of ZeroDivisionError = ''division by zero''"
| "str_of (OverflowError msg) = msg"
| "str_of (ImportError msg) = msg"
| "str_of (KeyError k) = [CHR 0x27] @ k @ [CHR 0x27]"
| "str_of (Raised msg) = msg"

subsection \<open>The two regular expressions\<close>

definition isdigit :: "char \<Rightarrow> bool" where
  "isdigit c = (c \<in> set ''0123456789'')"

definition isspace :: "char \<Rightarrow> bool" where
  "isspace c = (let n = (of_char c :: nat)
                in (9 \<le> n \<and> n \<le> 13) \<or> (28 \<le> n \<and> n \<le> 32))"

text \<open>\<^verbatim>\<open>line.strip()\<close>: white space removed at both ends.\<close>

definition strip :: "string \<Rightarrow> string" where
  "strip s = rev (dropWhile isspace (rev (dropWhile isspace s)))"

definition digit_value :: "char \<Rightarrow> nat" where
  "digit_value c = (of_char c :: nat) - 48"

text \<open>\<^verbatim>\<open>int(group)\<close> on a captured run of decimal digits.\<close>

definition py_int :: "string \<Rightarrow> nat" where
  "py_int ds = foldl (\<lambda>n c. 10 * n + digit_value c) 0 ds"

text \<open>
  \<^verbatim>\<open>(\d+)/(\d+)\<close> tried at the start of \<open>s\<close>: the two captured groups and the text
  after the match. Both groups are greedy, and giving a digit back never helps (the next
  character is then a digit, where the pattern wants \<^verbatim>\<open>/\<close> or is finished), so the
  match at a position is the one with the longest runs.
\<close>

definition match_fraction :: "string \<Rightarrow> (string \<times> string \<times> string) option" where
  "match_fraction s =
     (let g1 = takeWhile isdigit s; r1 = dropWhile isdigit s
      in if g1 = [] then None
         else (case r1 of
                 [] \<Rightarrow> None
               | c # r2 \<Rightarrow>
                   if c \<noteq> CHR ''/'' then None
                   else (let g2 = takeWhile isdigit r2; r3 = dropWhile isdigit r2
                         in if g2 = [] then None else Some (g1, g2, r3))))"

text \<open>
  \<^verbatim>\<open>(\d+)/(\d+)\s*\[\<close> tried at the start of \<open>s\<close>: after the fraction, white space is
  skipped and an opening bracket must follow.
\<close>

definition match_token :: "string \<Rightarrow> (string \<times> string) option" where
  "match_token s =
     (case match_fraction s of
        None \<Rightarrow> None
      | Some (g1, g2, r) \<Rightarrow>
          (case dropWhile isspace r of
             [] \<Rightarrow> None
           | c # _ \<Rightarrow> if c = CHR ''['' then Some (g1, g2) else None))"

text \<open>\<^verbatim>\<open>re.search\<close>: the match at the leftmost position that has one.\<close>

fun re_search :: "(string \<Rightarrow> 'a option) \<Rightarrow> string \<Rightarrow> 'a option" where
  "re_search m [] = m []"
| "re_search m (c # cs) = (case m (c # cs) of Some r \<Rightarrow> Some r | None \<Rightarrow> re_search m cs)"

definition token_match :: "string \<Rightarrow> (nat \<times> nat) option" where
  "token_match line = map_option (\<lambda>(g1, g2). (py_int g1, py_int g2)) (re_search match_token line)"

definition seg_match :: "string \<Rightarrow> (nat \<times> nat) option" where
  "seg_match line =
     map_option (\<lambda>(g1, g2, r). (py_int g1, py_int g2)) (re_search match_fraction line)"

subsection \<open>The arithmetic \<^verbatim>\<open>int((current / total) * 40)\<close>\<close>

text \<open>
  Python divides the two integers into a binary64 float (correctly rounded), multiplies
  by 40 in binary64 and truncates. A float is kept here as a mantissa and an exponent,
  \<open>m * 2 ^ e\<close>; rounding is to nearest, ties to even, on 53 bits. The exponent is not
  bounded below: a quotient too small for a normal float gives a product below 1 in
  Python as well, so the truncation is 0 either way. A result of \<open>2 ^ 1024\<close> or more
  raises \<^verbatim>\<open>OverflowError\<close>, in the division itself or when the infinite product is
  converted by \<^verbatim>\<open>int\<close>.
\<close>

fun bit_length :: "nat \<Rightarrow> nat" where
  "bit_length n = (if n = 0 then 0 else Suc (bit_length (n div 2)))"

declare bit_length.simps [simp del]

definition round_half_even :: "nat \<Rightarrow> nat \<Rightarrow> nat" where
  "round_half_even n d =
     (let q = n div d; r = n mod d
      in if 2 * r < d then q
         else if d < 2 * r then q + 1
         else if even q then q else q + 1)"

text \<open>Numerator and denominator of \<open>c / (t * 2 ^ e)\<close>.\<close>

definition scaled :: "nat \<Rightarrow> nat \<Rightarrow> int \<Rightarrow> nat \<times> nat" where
  "scaled c t e = (if e < 0 then (c * 2 ^ nat (- e), t) else (c, t * 2 ^ nat e))"

definition float_div :: "nat \<Rightarrow> nat \<Rightarrow> nat \<times> int" where
  "float_div c t =
     (let e0 = int (bit_length c) - int (bit_length t) - 53;
          e = (if fst (scaled c t e0) < snd (scaled c t e0) * 2 ^ 53 then e0 else e0 + 1)
      in (round_half_even (fst (scaled c t e)) (snd (scaled c t e)), e))"

definition float_mul40 :: "nat \<times> int \<Rightarrow> nat \<times> int" where
  "float_mul40 x =
     (let M = 40 * fst x; k = bit_length M - 53
      in (round_half_even M (2 ^ k), snd x + int k))"

definition float_overflow :: "nat \<times> int \<Rightarrow> bool" where
  "float_overflow x =
     (if 0 \<le> snd x then 2 ^ 1024 \<le> fst x * 2 ^ nat (snd x)
      else 2 ^ (1024 + nat (- snd x)) \<le> fst x)"

definition float_trunc :: "nat \<times> int \<Rightarrow> int" where
  "float_trunc x =
     (if 0 \<le> snd x then int (fst x * 2 ^ nat (snd x)) else int (fst x div 2 ^ nat (- snd x)))"

definition scale40 :: "nat \<Rightarrow> nat \<Rightarrow> exn + int" where
  "scale40 c t =
     (if t = 0 then Inl ZeroDivisionError
      else if c = 0 then Inr 0
      else if float_overflow (float_div c t)
        then Inl (OverflowError ''integer division result too large for a float'')
      else if float_overflow (float_mul40 (float_div c t))
        then Inl (OverflowError ''cannot convert float infinity to integer'')
      else Inr (float_trunc (float_mul40 (float_div c t))))"

subsection \<open>The progress update for one output line\<close>

text \<open>
  The body of the \<^verbatim>\<open>for line in process.stdout\<close> loop after the line is logged
  (lines 200 to 222 of \<^verbatim>\<open>_run_yue_process\<close>): the progress value the record holds
  after the line, given the value before it, or the exception the arithmetic raises.
\<close>

definition segment_marker :: "string \<Rightarrow> bool" where
  "segment_marker line =
     (contains ''50%|##### | 1/2'' line \<or> contains ''100%|##########| 2/2'' line
      \<or> contains ''/2 ['' line)"

definition parse_progress :: "string \<Rightarrow> int \<Rightarrow> exn + int" where
  "parse_progress line p =
     (case token_match line of
        Some (current, total') \<Rightarrow>
          if segment_marker line
          then (case seg_match line of
                  Some (c_seg, t_seg) \<Rightarrow>
                    (case scale40 c_seg t_seg of
                       Inl e \<Rightarrow> Inl e
                     | Inr k \<Rightarrow> Inr (min (50 + k) 90))
                | None \<Rightarrow> Inr p)
          else (case scale40 current total' of
                  Inl e \<Rightarrow> Inl e
                | Inr k \<Rightarrow> Inr (min (10 + k) 50))
      | None \<Rightarrow>
          if contains ''Starting stage 1'' line then Inr 10
          else if contains ''Starting stage 2'' line then Inr 50
          else if contains ''postprocessing'' (lower line) \<or> contains ''vocoder'' (lower line)
            then Inr 90
          else Inr p)"

section \<open>Job records\<close>

text \<open>
  Both services keep one dictionary per job in a module-level dictionary and write the
  status as a string; the six strings that occur are the constructors below
  (\<^verbatim>\<open>"queued"\<close> is written by the separation service, \<^verbatim>\<open>"pending"\<close> by the generation
  service). A key that a dictionary does not hold yet, and a key that holds \<^verbatim>\<open>None\<close>,
  are both \<open>None\<close> here.
\<close>

datatype status = Queued | Pending | Processing | Completed | Failed | Cancelled

record job_core =
  status :: status
  progress :: int
  error :: "string option"

text \<open>The record of a generation job (\<^verbatim>\<open>yue_service.jobs[job_id]\<close>).\<close>

record job = job_core +
  job_id :: string
  logs :: "string list"
  output_files :: "string list"
  created_at :: nat

text \<open>
  \<^verbatim>\<open>start_generation_job\<close>. The identifier drawn by \<^verbatim>\<open>uuid.uuid4()\<close> and the clock
  reading are inputs; \<open>io_fault\<close> is the exception, if any, that creating the job
  directory or writing the two prompt files raises (nothing catches it, so the caller
  gets it and no record is made). The result is the returned identifier, the job table
  and the contents of \<^verbatim>\<open>genre.txt\<close> and \<^verbatim>\<open>lyrics.txt\<close>.
\<close>

definition start_generation_job ::
  "(string \<rightharpoonup> job) \<Rightarrow> string \<Rightarrow> nat \<Rightarrow> exn option \<Rightarrow> string \<Rightarrow> string \<Rightarrow> options option
     \<Rightarrow> exn + (string \<times> (string \<rightharpoonup> job) \<times> string \<times> string)" where
  "start_generation_job jobs new_id now io_fault genre_txt lyrics_txt options =
     (let opts = (case options of None \<Rightarrow> no_options | Some opts \<Rightarrow> opts)
      in case io_fault of
           Some e \<Rightarrow> Inl e
         | None \<Rightarrow>
             Inr (new_id,
                  jobs(new_id \<mapsto>
                    \<lparr>status = Pending, progress = 0, error = None, job_id = new_id,
                     logs = [], output_files = [], created_at = now\<rparr>),
                  process_vocal_style opts genre_txt,
                  lyrics_txt))"

section \<open>Generation jobs: the task runner (\<^verbatim>\<open>yue_service._run_yue_process\<close>)\<close>

text \<open>
  What the world outside the runner does during one run: whether \<^verbatim>\<open>PATH\<close> is set,
  what the two model downloads return or raise, the command line that is logged,
  whether launching the process raises, the lines the process prints and its exit code.
\<close>

record gen_env =
  environ_has_path :: bool
  stage1_download :: "exn + string"
  stage2_download :: "exn + string"
  command_line :: string
  popen :: "exn option"
  stdout_lines :: "string list"
  returncode :: int

definition get_quality :: "options \<Rightarrow> string" where
  "get_quality opts = (case quality opts of None \<Rightarrow> ''fast'' | Some q \<Rightarrow> q)"

definition get_language :: "options \<Rightarrow> string" where
  "get_language opts = (case language opts of None \<Rightarrow> ''en'' | Some l \<Rightarrow> l)"

definition revision_of :: "string \<Rightarrow> string" where
  "revision_of q = (if q = ''best'' then ''8.0bpw-h8''
                    else if q = ''balanced'' then ''6.0bpw-h6'' else ''4.25bpw-h6'')"

definition repo_id_of :: "string \<Rightarrow> string" where
  "repo_id_of l = (if l = ''ja'' then ''bartowski/YuE-s1-7B-anneal-jp-kr-cot-exl2''
                   else ''Doctor-Shotgun/YuE-s1-7B-anneal-en-cot-exl2'')"

text \<open>
  A run is described by the values the record takes, one after each write, in the order
  of the writes. \<open>successive j fs\<close> are the values after the writes \<open>fs\<close> made one by one
  from \<open>j\<close>; \<open>final j ws\<close> is the value the record holds at the end.
\<close>

fun successive :: "'a \<Rightarrow> ('a \<Rightarrow> 'a) list \<Rightarrow> 'a list" where
  "successive j [] = []"
| "successive j (f # fs) = f j # successive (f j) fs"

definition final :: "'a \<Rightarrow> 'a list \<Rightarrow> 'a" where
  "final j ws = last (j # ws)"

definition append_log :: "string \<Rightarrow> job \<Rightarrow> job" where
  "append_log l j = j\<lparr>logs := logs j @ [l]\<rparr>"

text \<open>
  Lines 109 to 191: the environment, the two downloads and the launch. The result is
  the writes made and the exception that ended the phase, if one did.
\<close>

definition yue_prepare :: "options \<Rightarrow> gen_env \<Rightarrow> job \<Rightarrow> job list \<times> exn option" where
  "yue_prepare opts env j =
     (if \<not> environ_has_path env then ([], Some (KeyError ''PATH''))
      else
        let revision = revision_of (get_quality opts);
            repo_id = repo_id_of (get_language opts);
            w1 = successive j
              [append_log (''Using '' @ upper (get_language opts) @ '' focus model: ''
                             @ repo_id @ '' ('' @ revision @ '')''),
               append_log (''Downloading Stage 1 model ('' @ revision
                             @ '')... This may take several minutes on first run.''),
               (\<lambda>j. j\<lparr>progress := 2\<rparr>)];
            j1 = final j w1
        in case stage1_download env of
             Inl e \<Rightarrow> (w1, Some e)
           | Inr stage1_model_path \<Rightarrow>
               let w2 = successive j1
                     [append_log (''Stage 1 model ready: '' @ stage1_model_path),
                      (\<lambda>j. j\<lparr>progress := 5\<rparr>),
                      append_log ''Downloading Stage 2 model (8.0bpw-h8)...''];
                   j2 = final j1 w2
               in case stage2_download env of
                    Inl e \<Rightarrow> (w1 @ w2, Some e)
                  | Inr stage2_model_path \<Rightarrow>
                      let w3 = successive j2
                            [append_log (''Stage 2 model ready: '' @ stage2_model_path),
                             (\<lambda>j. j\<lparr>progress := 8\<rparr>),
                             append_log (''Command: '' @ command_line env)]
                      in (w1 @ w2 @ w3, popen env))"

text \<open>
  Lines 194 to 222: every line of the output is stripped; a line that is not empty is
  appended to the log and then read for progress. An exception of the arithmetic ends
  the loop.
\<close>

fun stream_logs :: "string list \<Rightarrow> job \<Rightarrow> job list \<times> exn option" where
  "stream_logs [] j = ([], None)"
| "stream_logs (l # ls) j =
     (let line = strip l
      in if line = [] then stream_logs ls j
         else
           let j1 = append_log line j
           in case parse_progress line (progress j1) of
                Inl e \<Rightarrow> ([j1], Some e)
              | Inr p \<Rightarrow>
                  let j2 = j1\<lparr>progress := p\<rparr>;
                      (ws, x) = stream_logs ls j2
                  in (j1 # j2 # ws, x))"

text \<open>\<^verbatim>\<open>str(n)\<close> for an integer, as the f-string of the failure message prints it.\<close>

definition digit_char :: "nat \<Rightarrow> char" where
  "digit_char d = ''0123456789'' ! d"

fun str_nat :: "nat \<Rightarrow> string" where
  "str_nat n = (if n < 10 then [digit_char n] else str_nat (n div 10) @ [digit_char (n mod 10)])"

declare str_nat.simps [simp del]

definition str_int :: "int \<Rightarrow> string" where
  "str_int i = (if i < 0 then ''-'' @ str_nat (nat (- i)) else str_nat (nat i))"

text \<open>
  Lines 224 to 250, after \<^verbatim>\<open>process.wait()\<close>. Between the write of the progress and the
  last log line of a successful run the produced files are renamed (see \<open>rename_pass\<close>
  below); the renaming writes nothing to the record and catches its own exceptions.
\<close>

definition yue_finish :: "int \<Rightarrow> job \<Rightarrow> job list" where
  "yue_finish rc j =
     (if rc = 0 then
        successive j
          [(\<lambda>j. j\<lparr>status := Completed\<rparr>),
           (\<lambda>j. j\<lparr>progress := 100\<rparr>),
           append_log ''Generation completed successfully.'']
      else
        successive j
          [(\<lambda>j. j\<lparr>status := Failed\<rparr>),
           (\<lambda>j. j\<lparr>error := Some (''Process exited with code '' @ str_int rc)\<rparr>),
           append_log (''FAILED: Process exited with code '' @ str_int rc)])"

text \<open>Lines 252 to 256: the handler of \<^verbatim>\<open>except Exception as e\<close>.\<close>

definition yue_handler :: "exn \<Rightarrow> job \<Rightarrow> job list" where
  "yue_handler e j =
     successive j
       [(\<lambda>j. j\<lparr>status := Failed\<rparr>),
        (\<lambda>j. j\<lparr>error := Some (str_of e)\<rparr>),
        append_log (''EXCEPTION: '' @ str_of e)]"

text \<open>
  The body of the \<^verbatim>\<open>try\<close> up to \<^verbatim>\<open>process.wait()\<close>: the writes it makes and the
  exception that ends it, if one does.
\<close>

definition yue_body :: "options \<Rightarrow> gen_env \<Rightarrow> job \<Rightarrow> job list \<times> exn option" where
  "yue_body opts env j =
     (let (w1, x1) = yue_prepare opts env j
      in case x1 of
           Some e \<Rightarrow> (w1, Some e)
         | None \<Rightarrow>
             let (w2, x2) = stream_logs (stdout_lines env) (final j w1)
             in (w1 @ w2, x2))"

text \<open>
  The whole runner: the values \<^verbatim>\<open>jobs[job_id]\<close> takes after each write, in order. A
  poll of the status sees the record as submitted or one of these values, and a later
  poll never sees an earlier one.
\<close>

definition yue_end :: "exn option \<Rightarrow> int \<Rightarrow> job \<Rightarrow> job list" where
  "yue_end x rc j = (case x of Some e \<Rightarrow> yue_handler e j | None \<Rightarrow> yue_finish rc j)"

definition run_yue_process :: "options \<Rightarrow> gen_env \<Rightarrow> job \<Rightarrow> job list" where
  "run_yue_process opts env j =
     (let j1 = j\<lparr>status := Processing\<rparr>;
          (w, x) = yue_body opts env j1
      in j1 # w @ yue_end x (returncode env) (final j1 w))"

text \<open>The record as \<^verbatim>\<open>start_generation_job\<close> makes it, for a given identifier and time.\<close>

definition new_job :: "string \<Rightarrow> nat \<Rightarrow> job" where
  "new_job new_id now =
     \<lparr>status = Pending, progress = 0, error = None, job_id = new_id,
      logs = [], output_files = [], created_at = now\<rparr>"

definition observations :: "options \<Rightarrow> gen_env \<Rightarrow> job \<Rightarrow> job list" where
  "observations opts env j = j # run_yue_process opts env j"

text \<open>
  A record while the \<^verbatim>\<open>try\<close> body runs: the status is \<^verbatim>\<open>"processing"\<close>, there is no
  error, and the progress is one of the fixed values or a value read from a line.
\<close>

definition working :: "job \<Rightarrow> bool" where
  "working j = (status j = Processing \<and> error j = None \<and> 0 \<le> progress j \<and> progress j \<le> 90)"

text \<open>What every value of the record satisfies, whenever it is polled.\<close>

definition sound :: "job \<Rightarrow> bool" where
  "sound j =
     (0 \<le> progress j \<and> progress j \<le> 100 \<and> (progress j = 100 \<longrightarrow> status j = Completed)
      \<and> (error j \<noteq> None \<longrightarrow> status j = Failed)
      \<and> (status j = Failed \<or> error j = None))"

text \<open>
  A run for the examples: both downloads succeed and the process prints the lines below
  and exits with code 0.
\<close>

definition stub_gen_env :: gen_env where
  "stub_gen_env =
     \<lparr>environ_has_path = True, stage1_download = Inr ''models/stage1'',
      stage2_download = Inr ''models/stage2'', command_line = ''python infer.py'',
      popen = None,
      stdout_lines = [''Starting stage 1'', ''Starting stage 2'', ''2/50 [00:01<00:24]''],
      returncode = 0\<rparr>"

section \<open>Generation jobs: renaming the produced files\<close>

text \<open>
  Lines 230 to 244. The job directory is the list of the names of its files.
  \<^verbatim>\<open>glob\<close> with \<^verbatim>\<open>*.mp3\<close> and then \<^verbatim>\<open>*.wav\<close> gives the names with that ending that do
  not start with a dot. \<^verbatim>\<open>os.rename\<close> is the operating system's: \<open>refuses\<close> says for
  which source names the call raises (the file is in use, the target exists on Windows,
  ...); the runner catches the exception, logs a warning and goes on. A call that
  succeeds gives the file its new name, in place of any file that had it.
\<close>

definition isalnum :: "char \<Rightarrow> bool" where
  "isalnum c = (c \<in> set upper_letters \<or> c \<in> set lower_letters \<or> isdigit c)"

definition rstrip :: "string \<Rightarrow> string" where
  "rstrip s = rev (dropWhile isspace (rev s))"

definition sanitized_title :: "options \<Rightarrow> string" where
  "sanitized_title opts =
     (let title1 = map (\<lambda>c. if c = CHR '' '' then CHR ''_'' else c)
                     (case title opts of None \<Rightarrow> ''My Song'' | Some t \<Rightarrow> t)
      in rstrip (filter (\<lambda>c. isalnum c \<or> c = CHR ''-'' \<or> c = CHR ''_'') title1))"

definition glob :: "string \<Rightarrow> string list \<Rightarrow> string list" where
  "glob ext dir = filter (\<lambda>n. suffix ext n \<and> \<not> prefix ''.'' n) dir"

definition job_dir_files :: "string list \<Rightarrow> string list" where
  "job_dir_files dir = glob ''.mp3'' dir @ glob ''.wav'' dir"

definition os_rename :: "(string \<Rightarrow> bool) \<Rightarrow> string list \<Rightarrow> string \<Rightarrow> string \<Rightarrow> string list option" where
  "os_rename refuses dir src dst =
     (if src \<notin> set dir \<or> refuses src then None
      else Some (map (\<lambda>n. if n = src then dst else n) (filter (\<lambda>n. n = src \<or> n \<noteq> dst) dir)))"

fun rename_loop :: "(string \<Rightarrow> bool) \<Rightarrow> string \<Rightarrow> string list \<Rightarrow> string list \<Rightarrow> string list" where
  "rename_loop refuses ttl [] dir = dir"
| "rename_loop refuses ttl (fname # rest) dir =
     (if \<not> prefix ttl fname
      then (case os_rename refuses dir fname (ttl @ ''_'' @ fname) of
              Some dir' \<Rightarrow> rename_loop refuses ttl rest dir'
            | None \<Rightarrow> rename_loop refuses ttl rest dir)
      else rename_loop refuses ttl rest dir)"

definition rename_pass :: "(string \<Rightarrow> bool) \<Rightarrow> string \<Rightarrow> string list \<Rightarrow> string list" where
  "rename_pass refuses ttl dir = rename_loop refuses ttl (job_dir_files dir) dir"

section \<open>Separation jobs: submission, polling and cancellation (\<^verbatim>\<open>main.py\<close>)\<close>

text \<open>The dictionary stored under \<^verbatim>\<open>"result"\<close> when a separation has succeeded.\<close>

record stems =
  vocals_url :: string
  instrumental_url :: string
  vocals_path :: string
  instrumental_path :: string
  original_web_path :: string

text \<open>The record of a separation job (\<^verbatim>\<open>main.tasks[task_id]\<close>). It has no log.\<close>

record task = job_core +
  filename :: string
  original_path :: string
  result :: "stems option"

definition new_task :: "string \<Rightarrow> string \<Rightarrow> string \<Rightarrow> task" where
  "new_task task_id upload_name ext =
     \<lparr>status = Queued, progress = 0, error = None, filename = upload_name,
      original_path = ''/uploads/'' @ task_id @ ext, result = None\<rparr>"

text \<open>
  \<^verbatim>\<open>separate_audio\<close>. The identifier drawn by \<^verbatim>\<open>uuid.uuid4()\<close> is an input, and so is
  \<open>upload_suffix\<close>, the value of \<^verbatim>\<open>Path(file.filename).suffix\<close>. \<open>copy_fault\<close> is the
  exception, if any, raised before the record is stored (while the upload is copied);
  the handler answers it with an HTTP error 500 and no record is made. Otherwise the
  record is stored, the runner thread is started and the identifier is returned.
\<close>

definition separate_audio ::
  "(string \<rightharpoonup> task) \<Rightarrow> string \<Rightarrow> string \<Rightarrow> string \<Rightarrow> exn option
     \<Rightarrow> exn + (string \<times> (string \<rightharpoonup> task))" where
  "separate_audio tasks new_id upload_name upload_suffix copy_fault =
     (let ext = (if upload_suffix = [] then ''.mp3'' else upload_suffix)
      in case copy_fault of
           Some e \<Rightarrow> Inl e
         | None \<Rightarrow> Inr (new_id, tasks(new_id \<mapsto> new_task new_id upload_name ext)))"

text \<open>\<^verbatim>\<open>get_task_status\<close> and \<^verbatim>\<open>cancel_task\<close>; \<open>None\<close> is the HTTP error 404.\<close>

definition get_task_status :: "(string \<rightharpoonup> task) \<Rightarrow> string \<Rightarrow> task option" where
  "get_task_status tasks task_id = tasks task_id"

definition cancelled :: "task \<Rightarrow> task" where
  "cancelled t = t\<lparr>status := Cancelled\<rparr>"

definition cancel_task :: "(string \<rightharpoonup> task) \<Rightarrow> string \<Rightarrow> (string \<rightharpoonup> task) option" where
  "cancel_task tasks task_id =
     (case tasks task_id of
        None \<Rightarrow> None
      | Some t \<Rightarrow> Some (tasks(task_id \<mapsto> cancelled t)))"

section \<open>Separation jobs: the task runner and its ticker (\<^verbatim>\<open>main.run_separation_task\<close>)\<close>

text \<open>
  Three parties write to the record of one job: the runner thread, the ticker thread
  that the runner starts, and the request handler of a cancellation. Each of them is at
  a line of the source; a step of the system is one of them executing its next
  statement. The constructors of \<open>rpc\<close> and \<open>tpc\<close> are named after the line of
  \<^verbatim>\<open>main.py\<close> that is executed next.

  What the collaborators do is fixed for a run by \<open>sep_env\<close>: the exception, if any,
  raised by creating the output directory (line 82), by the import (line 88), by the
  constructor of the separator (line 94) and by loading the model (line 104); the file
  names returned or the exception raised by the separation itself (line 132); and the
  dictionary built in lines 153 to 198 from these files and the file system, or the
  exception raised on the way.
\<close>

record sep_env =
  mkdir_fault :: "exn option"
  import_fault :: "exn option"
  separator_fault :: "exn option"
  load_model_fault :: "exn option"
  separate_result :: "exn + string list"
  built_result :: "exn + stems"

datatype how = Succeeded | Returned_cancelled | Failed_with exn

datatype rpc =
    L75 | L76 | L82 | L84 | L88 | L94 | L99 | L104 | L106 | L127 | L132
  | L138 "exn option" | L139 "exn option"
  | L142 | L153 | L192 stems | L200 | L201
  | L207 exn | L208 exn
  | Finished how

datatype tpc = Not_started | T113 | T114 | T115 | T118 | T123 | T124 | Ended

record sep_state =
  task :: task
  runner :: rpc
  ticker :: tpc
  current :: int
  stop_progress :: bool

definition init_state :: "task \<Rightarrow> sep_state" where
  "init_state t =
     \<lparr>task = t, runner = L75, ticker = Not_started, current = 0, stop_progress = False\<rparr>"

definition goto :: "rpc \<Rightarrow> sep_state \<Rightarrow> sep_state" where
  "goto l s = s\<lparr>runner := l\<rparr>"

text \<open>A call that may raise: on an exception control passes to the handler at line 205.\<close>

definition call :: "exn option \<Rightarrow> rpc \<Rightarrow> sep_state \<Rightarrow> sep_state" where
  "call fault l s = (case fault of None \<Rightarrow> goto l s | Some e \<Rightarrow> goto (L207 e) s)"

definition set_progress :: "int \<Rightarrow> sep_state \<Rightarrow> sep_state" where
  "set_progress p s = s\<lparr>task := (task s)\<lparr>progress := p\<rparr>\<rparr>"

definition set_status :: "status \<Rightarrow> sep_state \<Rightarrow> sep_state" where
  "set_status st s = s\<lparr>task := (task s)\<lparr>status := st\<rparr>\<rparr>"

definition import_error_message :: string where
  "import_error_message =
     ''audio-separator library not found. Please run '' @ [CHR 0x27]
       @ ''pip install audio-separator[gpu]'' @ [CHR 0x27]"

text \<open>
  The next statement of the runner. \<open>None\<close>: the runner cannot move, because it has
  returned or because it waits in \<^verbatim>\<open>progress_thread.join()\<close> for the ticker to end.
  An exception raised by the separation (line 132) is kept while the \<^verbatim>\<open>finally\<close> block
  (lines 138 and 139) runs and reaches the handler after it.
\<close>

fun runner_step :: "sep_env \<Rightarrow> sep_state \<Rightarrow> sep_state option" where
  "runner_step env s =
     (case runner s of
        L75 \<Rightarrow> Some (goto L76 (set_status Processing s))
      | L76 \<Rightarrow> Some (goto L82 (set_progress 5 s))
      | L82 \<Rightarrow> Some (call (mkdir_fault env) L84 s)
      | L84 \<Rightarrow> Some (goto L88 (set_progress 10 s))
      | L88 \<Rightarrow>
          Some (case import_fault env of
                  None \<Rightarrow> goto L94 s
                | Some (ImportError msg) \<Rightarrow> goto (L207 (ImportError import_error_message)) s
                | Some e \<Rightarrow> goto (L207 e) s)
      | L94 \<Rightarrow> Some (call (separator_fault env) L99 s)
      | L99 \<Rightarrow> Some (goto L104 (set_progress 20 s))
      | L104 \<Rightarrow> Some (call (load_model_fault env) L106 s)
      | L106 \<Rightarrow> Some (goto L127 (set_progress 1 s))
      | L127 \<Rightarrow> Some (goto L132 (s\<lparr>stop_progress := False, ticker := T113\<rparr>))
      | L132 \<Rightarrow>
          Some (case separate_result env of
                  Inl e \<Rightarrow> goto (L138 (Some e)) s
                | Inr files \<Rightarrow> goto (L138 None) s)
      | L138 pending \<Rightarrow> Some (goto (L139 pending) (s\<lparr>stop_progress := True\<rparr>))
      | L139 pending \<Rightarrow>
          if ticker s = Ended then Some (call pending L142 s) else None
      | L142 \<Rightarrow>
          Some (if status (task s) = Cancelled then goto (Finished Returned_cancelled) s
                else goto L153 s)
      | L153 \<Rightarrow>
          Some (case built_result env of
                  Inl e \<Rightarrow> goto (L207 e) s
                | Inr r \<Rightarrow> goto (L192 r) s)
      | L192 r \<Rightarrow> Some (goto L200 (s\<lparr>task := (task s)\<lparr>result := Some r\<rparr>\<rparr>))
      | L200 \<Rightarrow> Some (goto L201 (set_status Completed s))
      | L201 \<Rightarrow> Some (goto (Finished Succeeded) (set_progress 100 s))
      | L207 e \<Rightarrow> Some (goto (L208 e) (set_status Failed s))
      | L208 e \<Rightarrow> Some (goto (Finished (Failed_with e)) (s\<lparr>task := (task s)\<lparr>error := Some (str_of e)\<rparr>\<rparr>))
      | Finished h \<Rightarrow> None)"

text \<open>
  The next statement of the ticker (\<^verbatim>\<open>simulate_progress\<close>, lines 112 to 124). The
  condition of line 123 reads the status and then the stop flag; the flag is never
  cleared once set, so reading both at the moment the status is read gives the same
  runs. The write of line 124 is a step of its own: the record can change between the
  test and the write.
\<close>

fun ticker_step :: "sep_state \<Rightarrow> sep_state option" where
  "ticker_step s =
     (case ticker s of
        Not_started \<Rightarrow> None
      | T113 \<Rightarrow> Some (s\<lparr>current := 1, ticker := T114\<rparr>)
      | T114 \<Rightarrow> Some (if stop_progress s then s\<lparr>ticker := Ended\<rparr> else s\<lparr>ticker := T115\<rparr>)
      | T115 \<Rightarrow> Some (if stop_progress s then s\<lparr>ticker := Ended\<rparr> else s\<lparr>ticker := T118\<rparr>)
      | T118 \<Rightarrow>
          Some (if current s < 95 then s\<lparr>current := current s + 1, ticker := T123\<rparr>
                else s\<lparr>ticker := T123\<rparr>)
      | T123 \<Rightarrow>
          Some (if status (task s) = Processing \<and> \<not> stop_progress s
                then s\<lparr>ticker := T124\<rparr> else s\<lparr>ticker := T114\<rparr>)
      | T124 \<Rightarrow> Some ((set_progress (current s) s)\<lparr>ticker := T114\<rparr>)
      | Ended \<Rightarrow> None)"

datatype actor = Runner | Ticker | Cancel_request

fun step :: "sep_env \<Rightarrow> sep_state \<Rightarrow> actor \<Rightarrow> sep_state option" where
  "step env s Runner = runner_step env s"
| "step env s Ticker = ticker_step s"
| "step env s Cancel_request = Some (s\<lparr>task := cancelled (task s)\<rparr>)"

text \<open>
  A schedule is the list of who moves; \<open>exec\<close> runs it, and is \<open>None\<close> when the
  schedule asks a party to move that cannot. The states a poll can see are the states
  reached by the schedules from the state in which \<^verbatim>\<open>separate_audio\<close> leaves the job.
\<close>

fun exec :: "sep_env \<Rightarrow> sep_state \<Rightarrow> actor list \<Rightarrow> sep_state option" where
  "exec env s [] = Some s"
| "exec env s (a # as) = (case step env s a of None \<Rightarrow> None | Some s' \<Rightarrow> exec env s' as)"

definition reachable :: "sep_env \<Rightarrow> task \<Rightarrow> sep_state \<Rightarrow> bool" where
  "reachable env t s = (\<exists>as. exec env (init_state t) as = Some s)"

text \<open>
  The runner is about to write a terminal status, or has written it, or has returned:
  lines 200 and 201 of the successful end, lines 207 and 208 of the handler, and the
  three ways of being finished.
\<close>

fun reports_terminal :: "rpc \<Rightarrow> bool" where
  "reports_terminal L200 = True"
| "reports_terminal L201 = True"
| "reports_terminal (L207 e) = True"
| "reports_terminal (L208 e) = True"
| "reports_terminal (Finished h) = True"
| "reports_terminal l = False"

text \<open>
  The runner has written \<^verbatim>\<open>"processing"\<close> and has not yet passed the test of line 142,
  where it looks for a cancellation.
\<close>

fun checkpoint_ahead :: "rpc \<Rightarrow> bool" where
  "checkpoint_ahead L75 = False"
| "checkpoint_ahead L153 = False"
| "checkpoint_ahead (L192 r) = False"
| "checkpoint_ahead L200 = False"
| "checkpoint_ahead L201 = False"
| "checkpoint_ahead (L207 e) = False"
| "checkpoint_ahead (L208 e) = False"
| "checkpoint_ahead (Finished h) = False"
| "checkpoint_ahead l = True"

text \<open>The exception that the statement the runner is at raises in this run, if it does.\<close>

fun raises_at :: "sep_env \<Rightarrow> rpc \<Rightarrow> exn option" where
  "raises_at env L82 = mkdir_fault env"
| "raises_at env L88 =
     (case import_fault env of
        None \<Rightarrow> None
      | Some (ImportError msg) \<Rightarrow> Some (ImportError import_error_message)
      | Some e \<Rightarrow> Some e)"
| "raises_at env L94 = separator_fault env"
| "raises_at env L104 = load_model_fault env"
| "raises_at env L132 = (case separate_result env of Inl e \<Rightarrow> Some e | Inr files \<Rightarrow> None)"
| "raises_at env L153 = (case built_result env of Inl e \<Rightarrow> Some e | Inr r \<Rightarrow> None)"
| "raises_at env l = None"

text \<open>The runner is in its handler, or has returned without a result.\<close>

fun abandoned :: "rpc \<Rightarrow> bool" where
  "abandoned (L207 e) = True"
| "abandoned (L208 e) = True"
| "abandoned (Finished (Failed_with e)) = True"
| "abandoned (Finished Returned_cancelled) = True"
| "abandoned l = False"

text \<open>
  The exception \<open>e\<close> is on its way to the record: it waits for the \<^verbatim>\<open>finally\<close> block
  to end, is in the handler, or has been written.
\<close>

fun handling :: "exn \<Rightarrow> rpc \<Rightarrow> bool" where
  "handling e (L138 pending) = (pending = Some e)"
| "handling e (L139 pending) = (pending = Some e)"
| "handling e (L207 e') = (e' = e)"
| "handling e (L208 e') = (e' = e)"
| "handling e (Finished h) = (h = Failed_with e)"
| "handling e l = False"

text \<open>The status changes a runner makes when nobody cancels.\<close>

definition runner_transition :: "status \<Rightarrow> status \<Rightarrow> bool" where
  "runner_transition a b =
     ((a = Queued \<and> b = Processing) \<or> (a = Pending \<and> b = Processing)
      \<or> (a = Processing \<and> b = Completed) \<or> (a = Processing \<and> b = Failed))"

text \<open>
  A run for the examples: every collaborator succeeds and the separation returns the two
  stems. \<open>full_schedule\<close> lets the runner go up to \<^verbatim>\<open>stop_progress.set()\<close> before the
  ticker moves at all; the ticker then sets its counter, sees the flag and ends; the
  runner joins it and goes on to the end.
\<close>

definition stub_stems :: stems where
  "stub_stems =
     \<lparr>vocals_url = ''/outputs/separated/job-1/vocals.wav'',
      instrumental_url = ''/outputs/separated/job-1/instrumental.wav'',
      vocals_path = ''outputs/separated/job-1/vocals.wav'',
      instrumental_path = ''outputs/separated/job-1/instrumental.wav'',
      original_web_path = ''/uploads/job-1.mp3''\<rparr>"

definition stub_env :: sep_env where
  "stub_env =
     \<lparr>mkdir_fault = None, import_fault = None, separator_fault = None,
      load_model_fault = None,
      separate_result = Inr [''song_(Vocals).wav'', ''song_(Instrumental).wav''],
      built_result = Inr stub_stems\<rparr>"

definition stub_task :: task where
  "stub_task = new_task ''job-1'' ''song.mp3'' ''.mp3''"

definition full_schedule :: "actor list" where
  "full_schedule = replicate 12 Runner @ replicate 2 Ticker @ replicate 6 Runner"

section \<open>Separation jobs: what holds at each line of the runner\<close>

text \<open>
  The invariant used by the proofs below. For every line of the runner it says what the
  record holds and where the ticker can be: \<open>untouched\<close> is a record with neither a
  result nor an error, \<open>mid p\<close> a progress value that the ticker may have written.
\<close>

definition untouched :: "task \<Rightarrow> bool" where
  "untouched t = (result t = None \<and> error t = None)"

definition in_flight :: "task \<Rightarrow> bool" where
  "in_flight t = (status t = Processing \<or> status t = Cancelled)"

definition mid :: "int \<Rightarrow> bool" where
  "mid p = (1 \<le> p \<and> p \<le> 95)"

definition ticker_off :: "sep_state \<Rightarrow> bool" where
  "ticker_off s = (ticker s = Not_started \<and> \<not> stop_progress s)"

definition ticker_on :: "sep_state \<Rightarrow> bool" where
  "ticker_on s = (ticker s \<noteq> Not_started \<and> ticker s \<noteq> Ended \<and> \<not> stop_progress s)"

definition ticker_joined :: "sep_state \<Rightarrow> bool" where
  "ticker_joined s = (ticker s = Ended \<and> stop_progress s)"

fun holds_at :: "rpc \<Rightarrow> sep_state \<Rightarrow> bool" where
  "holds_at L75 s =
     (progress (task s) = 0 \<and> (status (task s) = Queued \<or> status (task s) = Cancelled)
      \<and> untouched (task s) \<and> ticker_off s)"
| "holds_at L76 s =
     (progress (task s) = 0 \<and> in_flight (task s) \<and> untouched (task s) \<and> ticker_off s)"
| "holds_at L82 s =
     (progress (task s) = 5 \<and> in_flight (task s) \<and> untouched (task s) \<and> ticker_off s)"
| "holds_at L84 s =
     (progress (task s) = 5 \<and> in_flight (task s) \<and> untouched (task s) \<and> ticker_off s)"
| "holds_at L88 s =
     (progress (task s) = 10 \<and> in_flight (task s) \<and> untouched (task s) \<and> ticker_off s)"
| "holds_at L94 s =
     (progress (task s) = 10 \<and> in_flight (task s) \<and> untouched (task s) \<and> ticker_off s)"
| "holds_at L99 s =
     (progress (task s) = 10 \<and> in_flight (task s) \<and> untouched (task s) \<and> ticker_off s)"
| "holds_at L104 s =
     (progress (task s) = 20 \<and> in_flight (task s) \<and> untouched (task s) \<and> ticker_off s)"
| "holds_at L106 s =
     (progress (task s) = 20 \<and> in_flight (task s) \<and> untouched (task s) \<and> ticker_off s)"
| "holds_at L127 s =
     (progress (task s) = 1 \<and> in_flight (task s) \<and> untouched (task s) \<and> ticker_off s)"
| "holds_at L132 s =
     (mid (progress (task s)) \<and> in_flight (task s) \<and> untouched (task s) \<and> ticker_on s)"
| "holds_at (L138 pending) s =
     (mid (progress (task s)) \<and> in_flight (task s) \<and> untouched (task s) \<and> ticker_on s)"
| "holds_at (L139 pending) s =
     (mid (progress (task s)) \<and> in_flight (task s) \<and> untouched (task s)
      \<and> ticker s \<noteq> Not_started \<and> stop_progress s)"
| "holds_at L142 s =
     (mid (progress (task s)) \<and> in_flight (task s) \<and> untouched (task s) \<and> ticker_joined s)"
| "holds_at L153 s =
     (mid (progress (task s)) \<and> in_flight (task s) \<and> untouched (task s) \<and> ticker_joined s)"
| "holds_at (L192 r) s =
     (mid (progress (task s)) \<and> in_flight (task s) \<and> untouched (task s) \<and> ticker_joined s)"
| "holds_at L200 s =
     (mid (progress (task s)) \<and> in_flight (task s) \<and> result (task s) \<noteq> None
      \<and> error (task s) = None \<and> ticker_joined s)"
| "holds_at L201 s =
     (mid (progress (task s)) \<and> (status (task s) = Completed \<or> status (task s) = Cancelled)
      \<and> result (task s) \<noteq> None \<and> error (task s) = None \<and> ticker_joined s)"
| "holds_at (Finished Succeeded) s =
     (progress (task s) = 100 \<and> (status (task s) = Completed \<or> status (task s) = Cancelled)
      \<and> result (task s) \<noteq> None \<and> error (task s) = None \<and> ticker_joined s)"
| "holds_at (Finished Returned_cancelled) s =
     (mid (progress (task s)) \<and> status (task s) = Cancelled \<and> untouched (task s)
      \<and> ticker_joined s)"
| "holds_at (L207 e) s =
     (0 \<le> progress (task s) \<and> progress (task s) \<le> 95 \<and> in_flight (task s)
      \<and> untouched (task s) \<and> (ticker_off s \<or> ticker_joined s))"
| "holds_at (L208 e) s =
     (0 \<le> progress (task s) \<and> progress (task s) \<le> 95
      \<and> (status (task s) = Failed \<or> status (task s) = Cancelled)
      \<and> untouched (task s) \<and> (ticker_off s \<or> ticker_joined s))"
| "holds_at (Finished (Failed_with e)) s =
     (0 \<le> progress (task s) \<and> progress (task s) \<le> 95
      \<and> (status (task s) = Failed \<or> status (task s) = Cancelled)
      \<and> result (task s) = None \<and> error (task s) = Some (str_of e)
      \<and> (ticker_off s \<or> ticker_joined s))"

text \<open>What the ticker knows about its counter while it runs.\<close>

fun ticker_at :: "tpc \<Rightarrow> sep_state \<Rightarrow> bool" where
  "ticker_at Not_started s = (current s = 0)"
| "ticker_at T113 s = (progress (task s) = 1 \<and> current s = 0)"
| "ticker_at Ended s = (0 \<le> current s \<and> current s \<le> 95)"
| "ticker_at l s = (mid (current s) \<and> progress (task s) \<le> current s)"

definition sep_inv :: "sep_state \<Rightarrow> bool" where
  "sep_inv s = (holds_at (runner s) s \<and> ticker_at (ticker s) s)"

text \<open>
  A cancellation that the runner will respect: the status is not \<^verbatim>\<open>"completed"\<close>, and
  either it is \<^verbatim>\<open>"cancelled"\<close> with the test of line 142 still ahead, or the runner is
  past the point where it could write \<^verbatim>\<open>"completed"\<close>.
\<close>

definition cancellation_holds :: "sep_state \<Rightarrow> bool" where
  "cancellation_holds s =
     (status (task s) \<noteq> Completed \<and>
      ((status (task s) = Cancelled \<and> checkpoint_ahead (runner s)) \<or> abandoned (runner s)))"

text \<open>The exception \<open>e\<close> is about to be raised, or is on its way to the record.\<close>

definition on_its_way :: "sep_env \<Rightarrow> exn \<Rightarrow> sep_state \<Rightarrow> bool" where
  "on_its_way env e s = (raises_at env (runner s) = Some e \<or> handling e (runner s))"

section \<open>Facts about strings\<close>

lemma contains_iff_sublist: "contains sub s \<longleftrightarrow> sublist sub s"
  by (induction s) (auto simp: sublist_Cons_right)

lemma contains_append_right: "contains sub s \<Longrightarrow> contains sub (s @ t)"
  unfolding contains_iff_sublist by (simp add: sublist_append)

lemma contains_append_left: "contains sub t \<Longrightarrow> contains sub (s @ t)"
  unfolding contains_iff_sublist by (simp add: sublist_append)

lemma lower_append: "lower (s @ t) = lower s @ lower t"
  by (simp add: lower_def)

lemma lower_instrumental: "lower ''instrumental, '' = ''instrumental, ''"
  by (simp add: lower_def lower_char_def upper_letters_def lower_letters_def)

lemma lower_male_vocals: "lower ''male vocals, '' = ''male vocals, ''"
  by (simp add: lower_def lower_char_def upper_letters_def lower_letters_def)

lemma lower_female_vocals: "lower ''female vocals, '' = ''female vocals, ''"
  by (simp add: lower_def lower_char_def upper_letters_def lower_letters_def)

lemma contains_after_instrumental:
  "contains ''instrumental'' (lower (''instrumental, '' @ g))"
  unfolding lower_append lower_instrumental
  by (rule contains_append_right) simp

lemma contains_after_male:
  "contains ''male vocals'' (lower (''male vocals, '' @ g))"
  unfolding lower_append lower_male_vocals
  by (rule contains_append_right) simp

lemma contains_after_female:
  "contains ''female vocals'' (lower (''female vocals, '' @ g))"
  unfolding lower_append lower_female_vocals
  by (rule contains_append_right) simp

section \<open>Facts about the binary64 arithmetic\<close>


lemma bit_length_0: "bit_length 0 = 0"
  by (subst bit_length.simps) simp

lemma bit_length_Suc_0: "bit_length (Suc 0) = 1"
  by (subst bit_length.simps) (simp add: bit_length_0)

lemma bit_length_1: "bit_length 1 = 1"
  by (simp add: bit_length_Suc_0)

lemma bit_length_numeral: "bit_length (numeral k) = Suc (bit_length (numeral k div 2))"
  by (subst bit_length.simps) simp

lemmas bit_length_eval = bit_length_0 bit_length_1 bit_length_Suc_0 bit_length_numeral

lemmas float_eval =
  scale40_def float_div_def float_mul40_def float_overflow_def float_trunc_def scaled_def
  round_half_even_def Let_def

lemmas match_eval =
  token_match_def seg_match_def match_token_def match_fraction_def isdigit_def isspace_def
  py_int_def digit_value_def segment_marker_def Let_def









lemma scale40_nonneg: "scale40 c t = Inr k \<Longrightarrow> 0 \<le> k"
  by (auto simp: scale40_def float_trunc_def split: if_splits)

lemma scale40_zero_total: "scale40 c 0 = Inl ZeroDivisionError"
  by (simp add: scale40_def)

section \<open>Facts about the progress update\<close>





lemma scale40_2_50: "scale40 2 50 = Inr 1"
  by (simp add: float_eval bit_length_eval)

lemma parse_progress_no_token:
  "token_match line = None \<Longrightarrow>
   parse_progress line p =
     Inr (if contains ''Starting stage 1'' line then 10
          else if contains ''Starting stage 2'' line then 50
          else if contains ''postprocessing'' (lower line) \<or> contains ''vocoder'' (lower line)
            then 90
          else p)"
  by (simp add: parse_progress_def)


lemma token_match_seg_match: "token_match line \<noteq> None \<Longrightarrow> seg_match line \<noteq> None"
proof -
  have "re_search match_token l \<noteq> None \<Longrightarrow> re_search match_fraction l \<noteq> None" for l
    by (induction l) (auto simp: match_token_def split: option.splits)
  then show "token_match line \<noteq> None \<Longrightarrow> seg_match line \<noteq> None"
    by (simp add: token_match_def seg_match_def)
qed


lemma parse_progress_range:
  assumes "parse_progress line p = Inr q"
  shows "q = p \<or> (10 \<le> q \<and> q \<le> 90)"
proof (cases "token_match line")
  case None
  with assms show ?thesis by (auto simp: parse_progress_no_token split: if_splits)
next
  case (Some ct)
  obtain c t where ct: "ct = (c, t)" by (cases ct)
  show ?thesis
  proof (cases "segment_marker line")
    case True
    from Some token_match_seg_match [of line] obtain a b where "seg_match line = Some (a, b)"
      by (cases "seg_match line") auto
    with assms Some ct True obtain k where k: "scale40 a b = Inr k" "q = min (50 + k) 90"
      by (auto simp: parse_progress_def split: sum.splits)
    from k(1) have "0 \<le> k" by (rule scale40_nonneg)
    with k(2) have "10 \<le> q \<and> q \<le> 90" by linarith
    then show ?thesis ..
  next
    case False
    with assms Some ct obtain k where k: "scale40 c t = Inr k" "q = min (10 + k) 50"
      by (auto simp: parse_progress_def split: sum.splits)
    from k(1) have "0 \<le> k" by (rule scale40_nonneg)
    with k(2) have "10 \<le> q \<and> q \<le> 90" by linarith
    then show ?thesis ..
  qed
qed


section \<open>Unfolding the separation model\<close>

lemmas sep_defs =
  goto_def call_def set_progress_def set_status_def cancelled_def untouched_def in_flight_def
  mid_def ticker_off_def ticker_on_def ticker_joined_def

section \<open>The invariant of the separation runner\<close>


lemma sep_inv_init: "sep_inv (init_state (new_task i f x))"
  by (simp add: sep_inv_def init_state_def new_task_def sep_defs)

lemma sep_inv_cancel: "sep_inv s \<Longrightarrow> sep_inv (s\<lparr>task := cancelled (task s)\<rparr>)"
  unfolding sep_inv_def
  by (cases "(runner s, s)" rule: holds_at.cases; cases "ticker s") (auto simp: sep_defs)

lemma sep_inv_ticker: "sep_inv s \<Longrightarrow> ticker_step s = Some s' \<Longrightarrow> sep_inv s'"
  unfolding sep_inv_def
  by (cases "(runner s, s)" rule: holds_at.cases; cases "ticker s")
     (auto simp: sep_defs split: if_splits)

lemma sep_inv_runner: "sep_inv s \<Longrightarrow> runner_step env s = Some s' \<Longrightarrow> sep_inv s'"
  unfolding sep_inv_def
  by (cases "(runner s, s)" rule: holds_at.cases; cases "ticker s")
     (auto simp: sep_defs split: if_splits option.splits sum.splits exn.splits)

lemma sep_inv_step: "sep_inv s \<Longrightarrow> step env s a = Some s' \<Longrightarrow> sep_inv s'"
  by (cases a) (auto intro: sep_inv_runner sep_inv_ticker sep_inv_cancel)

lemma sep_inv_exec: "sep_inv s \<Longrightarrow> exec env s as = Some s' \<Longrightarrow> sep_inv s'"
proof (induction as arbitrary: s)
  case Nil
  then show ?case by simp
next
  case (Cons a as)
  from Cons.prems(2) obtain s1 where s1: "step env s a = Some s1" "exec env s1 as = Some s'"
    by (auto split: option.splits)
  from Cons.prems(1) s1(1) have "sep_inv s1" by (rule sep_inv_step)
  then show ?case using s1(2) by (rule Cons.IH)
qed

lemma reachable_sep_inv: "reachable env (new_task i f x) s \<Longrightarrow> sep_inv s"
  unfolding reachable_def using sep_inv_init sep_inv_exec by blast

lemma exec_append:
  "exec env s (as @ bs) = (case exec env s as of None \<Rightarrow> None | Some s1 \<Rightarrow> exec env s1 bs)"
  by (induction as arbitrary: s) (auto split: option.splits)

lemma reachable_step:
  "reachable env t s \<Longrightarrow> step env s a = Some s' \<Longrightarrow> reachable env t s'"
  unfolding reachable_def
proof -
  assume "\<exists>as. exec env (init_state t) as = Some s" and st: "step env s a = Some s'"
  then obtain as where "exec env (init_state t) as = Some s" by blast
  with st have "exec env (init_state t) (as @ [a]) = Some s'" by (simp add: exec_append)
  then show "\<exists>as. exec env (init_state t) as = Some s'" by blast
qed

lemma reachable_exec:
  "reachable env t s \<Longrightarrow> exec env s bs = Some s' \<Longrightarrow> reachable env t s'"
  unfolding reachable_def
proof -
  assume "\<exists>as. exec env (init_state t) as = Some s" and st: "exec env s bs = Some s'"
  then obtain as where "exec env (init_state t) as = Some s" by blast
  with st have "exec env (init_state t) (as @ bs) = Some s'" by (simp add: exec_append)
  then show "\<exists>as. exec env (init_state t) as = Some s'" by blast
qed



section \<open>Consequences of the invariant\<close>

lemma inv_progress_range: "sep_inv s \<Longrightarrow> 0 \<le> progress (task s) \<and> progress (task s) \<le> 100"
  unfolding sep_inv_def
  by (cases "(runner s, s)" rule: holds_at.cases) (auto simp: sep_defs)

lemma inv_progress_100:
  "sep_inv s \<Longrightarrow> progress (task s) = 100 \<longleftrightarrow> runner s = Finished Succeeded"
  unfolding sep_inv_def
  by (cases "(runner s, s)" rule: holds_at.cases) (auto simp: sep_defs)

lemma inv_current: "sep_inv s \<Longrightarrow> 0 \<le> current s \<and> current s \<le> 95"
  unfolding sep_inv_def by (cases "ticker s") (auto simp: sep_defs)

lemma inv_terminal_quiet:
  "sep_inv s \<Longrightarrow> reports_terminal (runner s) \<Longrightarrow>
   ticker s = Not_started \<or> (ticker s = Ended \<and> stop_progress s)"
  unfolding sep_inv_def
  by (cases "(runner s, s)" rule: holds_at.cases) (auto simp: sep_defs)

lemma inv_step_monotone:
  "sep_inv s \<Longrightarrow> step env s a = Some s' \<Longrightarrow>
   progress (task s) \<le> progress (task s') \<or> (a = Runner \<and> runner s = L106)"
  unfolding sep_inv_def
  by (cases a; cases "(runner s, s)" rule: holds_at.cases; cases "ticker s")
     (auto simp: sep_defs split: if_splits option.splits sum.splits exn.splits)

lemma inv_finished_step:
  "sep_inv s \<Longrightarrow> runner s = Finished h \<Longrightarrow> step env s a = Some s' \<Longrightarrow>
   a = Cancel_request \<and> s' = s\<lparr>task := cancelled (task s)\<rparr>"
  unfolding sep_inv_def
  by (cases a; cases h; cases "ticker s") (auto simp: sep_defs)

lemma inv_ticker_step:
  "sep_inv s \<Longrightarrow> ticker_step s = Some s' \<Longrightarrow>
   progress (task s') \<le> 95 \<and> (current s' = current s \<or> current s' = current s + 1)"
  unfolding sep_inv_def
  by (cases "(runner s, s)" rule: holds_at.cases; cases "ticker s")
     (auto simp: sep_defs split: if_splits)

lemma quiet_step:
  assumes "reports_terminal (runner s)" "ticker s = Not_started \<or> ticker s = Ended"
    "step env s a = Some s'"
  shows "a \<noteq> Ticker \<and> reports_terminal (runner s') \<and> ticker s' = ticker s"
  using assms
  by (cases a; cases "runner s") (auto simp: sep_defs split: if_splits)

lemma quiet_exec:
  assumes "reports_terminal (runner s)" "ticker s = Not_started \<or> ticker s = Ended"
    "exec env s as = Some s'"
  shows "Ticker \<notin> set as \<and> ticker s' = ticker s"
  using assms
proof (induction as arbitrary: s)
  case Nil
  then show ?case by simp
next
  case (Cons a as)
  from Cons.prems(3) obtain s1 where s1: "step env s a = Some s1" "exec env s1 as = Some s'"
    by (auto split: option.splits)
  from quiet_step [OF Cons.prems(1,2) s1(1)]
  have q: "a \<noteq> Ticker" "reports_terminal (runner s1)" "ticker s1 = ticker s" by simp_all
  with Cons.prems(2) have "ticker s1 = Not_started \<or> ticker s1 = Ended" by simp
  from Cons.IH [OF q(2) this s1(2)] q show ?case by simp
qed



lemma finished_exec:
  assumes "sep_inv s" "runner s = Finished h" "exec env s as = Some s'"
  shows "progress (task s') = progress (task s) \<and> runner s' = Finished h
         \<and> result (task s') = result (task s) \<and> error (task s') = error (task s)"
  using assms
proof (induction as arbitrary: s)
  case Nil
  then show ?case by simp
next
  case (Cons a as)
  from Cons.prems(3) obtain s1 where s1: "step env s a = Some s1" "exec env s1 as = Some s'"
    by (auto split: option.splits)
  from inv_finished_step [OF Cons.prems(1,2) s1(1)]
  have e: "s1 = s\<lparr>task := cancelled (task s)\<rparr>" by simp
  from Cons.prems(1) s1(1) have i: "sep_inv s1" by (rule sep_inv_step)
  from e Cons.prems(2) have r: "runner s1 = Finished h" by simp
  from Cons.IH [OF i r s1(2)] e show ?case by (simp add: cancelled_def)
qed

lemma no_cancel_step:
  "a \<noteq> Cancel_request \<Longrightarrow> step env s a = Some s' \<Longrightarrow> status (task s) \<noteq> Cancelled \<Longrightarrow>
   status (task s') \<noteq> Cancelled"
  by (cases a; cases "runner s"; cases "ticker s")
     (auto simp: sep_defs split: if_splits option.splits sum.splits exn.splits)

lemma no_cancel_exec:
  assumes "Cancel_request \<notin> set as" "exec env s as = Some s'" "status (task s) \<noteq> Cancelled"
  shows "status (task s') \<noteq> Cancelled"
  using assms
proof (induction as arbitrary: s)
  case Nil
  then show ?case by simp
next
  case (Cons a as)
  from Cons.prems(2) obtain s1 where s1: "step env s a = Some s1" "exec env s1 as = Some s'"
    by (auto split: option.splits)
  from Cons.prems(1) have "a \<noteq> Cancel_request" "Cancel_request \<notin> set as" by auto
  with no_cancel_step [OF _ s1(1) Cons.prems(3)] Cons.IH [OF _ s1(2)] show ?case by blast
qed

lemma no_cancel_reachable:
  assumes "Cancel_request \<notin> set as" "exec env (init_state (new_task i f x)) as = Some s"
  shows "status (task s) \<noteq> Cancelled"
  using no_cancel_exec [OF assms] by (simp add: init_state_def new_task_def)

lemma inv_transition:
  "sep_inv s \<Longrightarrow> status (task s) \<noteq> Cancelled \<Longrightarrow> a \<noteq> Cancel_request \<Longrightarrow>
   step env s a = Some s' \<Longrightarrow>
   status (task s') = status (task s) \<or> runner_transition (status (task s)) (status (task s'))"
  unfolding sep_inv_def
  by (cases a; cases "(runner s, s)" rule: holds_at.cases; cases "ticker s")
     (auto simp: sep_defs runner_transition_def
       split: if_splits option.splits sum.splits exn.splits)

lemma inv_terminal_stable:
  "sep_inv s \<Longrightarrow> status (task s) = Completed \<or> status (task s) = Failed \<Longrightarrow>
   a \<noteq> Cancel_request \<Longrightarrow> step env s a = Some s' \<Longrightarrow> status (task s') = status (task s)"
  unfolding sep_inv_def
  by (cases a; cases "(runner s, s)" rule: holds_at.cases; cases "ticker s")
     (auto simp: sep_defs split: if_splits option.splits sum.splits exn.splits)

lemma terminal_stable_exec:
  assumes "sep_inv s" "status (task s) = Completed \<or> status (task s) = Failed"
    "Cancel_request \<notin> set as" "exec env s as = Some s'"
  shows "status (task s') = status (task s)"
  using assms
proof (induction as arbitrary: s)
  case Nil
  then show ?case by simp
next
  case (Cons a as)
  from Cons.prems(4) obtain s1 where s1: "step env s a = Some s1" "exec env s1 as = Some s'"
    by (auto split: option.splits)
  from Cons.prems(3) have na: "a \<noteq> Cancel_request" "Cancel_request \<notin> set as" by auto
  from inv_terminal_stable [OF Cons.prems(1,2) na(1) s1(1)]
  have e: "status (task s1) = status (task s)" .
  from Cons.prems(1) s1(1) have i: "sep_inv s1" by (rule sep_inv_step)
  from e Cons.prems(2) have "status (task s1) = Completed \<or> status (task s1) = Failed" by simp
  from Cons.IH [OF i this na(2) s1(2)] e show ?case by simp
qed

lemma cancellation_holds_step:
  "sep_inv s \<Longrightarrow> cancellation_holds s \<Longrightarrow> step env s a = Some s' \<Longrightarrow> cancellation_holds s'"
  unfolding sep_inv_def cancellation_holds_def
  by (cases a; cases "(runner s, s)" rule: holds_at.cases; cases "ticker s")
     (auto simp: sep_defs split: if_splits option.splits sum.splits exn.splits)

lemma cancellation_holds_exec:
  assumes "sep_inv s" "cancellation_holds s" "exec env s as = Some s'"
  shows "cancellation_holds s'"
  using assms
proof (induction as arbitrary: s)
  case Nil
  then show ?case by simp
next
  case (Cons a as)
  from Cons.prems(3) obtain s1 where s1: "step env s a = Some s1" "exec env s1 as = Some s'"
    by (auto split: option.splits)
  from Cons.prems(1) s1(1) have i: "sep_inv s1" by (rule sep_inv_step)
  from cancellation_holds_step [OF Cons.prems(1,2) s1(1)] have "cancellation_holds s1" .
  from Cons.IH [OF i this s1(2)] show ?case .
qed

lemma on_its_way_step:
  "on_its_way env e s \<Longrightarrow> step env s a = Some s' \<Longrightarrow> on_its_way env e s'"
  unfolding on_its_way_def
  by (cases a; cases "runner s"; cases "ticker s")
     (auto simp: sep_defs split: if_splits option.splits sum.splits exn.splits)

lemma on_its_way_exec:
  assumes "on_its_way env e s" "exec env s as = Some s'"
  shows "on_its_way env e s'"
  using assms
proof (induction as arbitrary: s)
  case Nil
  then show ?case by simp
next
  case (Cons a as)
  from Cons.prems(2) obtain s1 where s1: "step env s a = Some s1" "exec env s1 as = Some s'"
    by (auto split: option.splits)
  from on_its_way_step [OF Cons.prems(1) s1(1)] have "on_its_way env e s1" .
  from Cons.IH [OF this s1(2)] show ?case .
qed

lemma inv_failed_record:
  "sep_inv s \<Longrightarrow> runner s = Finished (Failed_with e) \<Longrightarrow>
   error (task s) = Some (str_of e) \<and> result (task s) = None
   \<and> (status (task s) = Failed \<or> status (task s) = Cancelled)"
  unfolding sep_inv_def by (simp add: sep_defs)

lemma inv_finished_terminal:
  "sep_inv s \<Longrightarrow> runner s = Finished h \<Longrightarrow>
   status (task s) = Completed \<or> status (task s) = Failed \<or> status (task s) = Cancelled"
  unfolding sep_inv_def by (cases h) (auto simp: sep_defs)

lemma inv_population:
  "sep_inv s \<Longrightarrow>
   \<not> (result (task s) \<noteq> None \<and> error (task s) \<noteq> None) \<and>
   (status (task s) = Queued \<longrightarrow> result (task s) = None \<and> error (task s) = None) \<and>
   (status (task s) = Processing \<longrightarrow> error (task s) = None) \<and>
   (status (task s) = Completed \<longrightarrow> result (task s) \<noteq> None \<and> error (task s) = None) \<and>
   (status (task s) = Failed \<longrightarrow> result (task s) = None) \<and>
   (error (task s) \<noteq> None \<longrightarrow> status (task s) = Failed \<or> status (task s) = Cancelled) \<and>
   (runner s = Finished h \<and> status (task s) = Failed \<longrightarrow> error (task s) \<noteq> None)"
  unfolding sep_inv_def
  by (cases "(runner s, s)" rule: holds_at.cases) (auto simp: sep_defs)

lemma inv_finished_population:
  "sep_inv s \<Longrightarrow> runner s = Finished h \<Longrightarrow> status (task s) \<noteq> Cancelled \<Longrightarrow>
   (result (task s) \<noteq> None \<longleftrightarrow> status (task s) = Completed) \<and>
   (error (task s) \<noteq> None \<longleftrightarrow> status (task s) = Failed)"
  unfolding sep_inv_def by (cases h) (auto simp: sep_defs)



section \<open>The writes of the generation runner\<close>

lemma final_Nil [simp]: "final j [] = j"
  by (simp add: final_def)

lemma final_append: "final j (ws @ vs) = final (final j ws) vs"
  by (cases vs) (simp_all add: final_def)

lemma final_Cons: "final j (w # ws) = final w ws"
  by (simp add: final_def)

lemma successive_working:
  assumes "\<forall>f \<in> set fs. \<forall>j. working j \<longrightarrow> working (f j)" "working j"
  shows "(\<forall>j' \<in> set (successive j fs). working j') \<and> working (final j (successive j fs))"
  using assms
proof (induction fs arbitrary: j)
  case Nil
  then show ?case by simp
next
  case (Cons f fs)
  from Cons.prems have "working (f j)" by simp
  moreover from Cons.prems have "\<forall>g \<in> set fs. \<forall>j. working j \<longrightarrow> working (g j)" by simp
  ultimately have "(\<forall>j' \<in> set (successive (f j) fs). working j')
      \<and> working (final (f j) (successive (f j) fs))"
    by (intro Cons.IH)
  with \<open>working (f j)\<close> show ?case by (simp add: final_Cons)
qed

lemma working_append_log: "working j \<Longrightarrow> working (append_log l j)"
  by (simp add: working_def append_log_def)

lemma working_progress: "0 \<le> p \<Longrightarrow> p \<le> 90 \<Longrightarrow> working j \<Longrightarrow> working (j\<lparr>progress := p\<rparr>)"
  by (simp add: working_def)

lemma yue_prepare_working:
  assumes "working j" "yue_prepare opts env j = (w, x)"
  shows "(\<forall>j' \<in> set w. working j') \<and> working (final j w)"
proof (cases "environ_has_path env")
  case False
  with assms show ?thesis by (simp add: yue_prepare_def)
next
  case True
  define w1 where "w1 = successive j
      [append_log (''Using '' @ upper (get_language opts) @ '' focus model: ''
                     @ repo_id_of (get_language opts) @ '' (''
                     @ revision_of (get_quality opts) @ '')''),
       append_log (''Downloading Stage 1 model ('' @ revision_of (get_quality opts)
                     @ '')... This may take several minutes on first run.''),
       (\<lambda>j. j\<lparr>progress := 2\<rparr>)]"
  have k1: "(\<forall>j' \<in> set w1. working j') \<and> working (final j w1)"
    unfolding w1_def using assms(1)
    by (intro successive_working) (simp_all add: working_append_log working_progress)
  show ?thesis
  proof (cases "stage1_download env")
    case (Inl e)
    with True assms(2) have "w = w1" by (simp add: yue_prepare_def w1_def Let_def)
    with k1 show ?thesis by simp
  next
    case (Inr p1)
    define w2 where "w2 = successive (final j w1)
        [append_log (''Stage 1 model ready: '' @ p1),
         (\<lambda>j. j\<lparr>progress := 5\<rparr>),
         append_log ''Downloading Stage 2 model (8.0bpw-h8)...'']"
    have k2: "(\<forall>j' \<in> set w2. working j') \<and> working (final (final j w1) w2)"
      unfolding w2_def using k1
      by (intro successive_working) (simp_all add: working_append_log working_progress)
    show ?thesis
    proof (cases "stage2_download env")
      case (Inl e)
      with True Inr assms(2) have "w = w1 @ w2"
        by (simp add: yue_prepare_def w1_def w2_def Let_def)
      with k1 k2 show ?thesis by (auto simp: final_append)
    next
      case (Inr p2)
      define w3 where "w3 = successive (final (final j w1) w2)
          [append_log (''Stage 2 model ready: '' @ p2),
           (\<lambda>j. j\<lparr>progress := 8\<rparr>),
           append_log (''Command: '' @ command_line env)]"
      have k3: "(\<forall>j' \<in> set w3. working j') \<and> working (final (final (final j w1) w2) w3)"
        unfolding w3_def using k2
        by (intro successive_working) (simp_all add: working_append_log working_progress)
      from True \<open>stage1_download env = Inr p1\<close> Inr assms(2) have "w = w1 @ w2 @ w3"
        by (simp add: yue_prepare_def w1_def w2_def w3_def Let_def)
      with k1 k2 k3 show ?thesis by (auto simp: final_append)
    qed
  qed
qed

lemma stream_logs_working:
  assumes "working j" "stream_logs ls j = (w, x)"
  shows "(\<forall>j' \<in> set w. working j') \<and> working (final j w)"
  using assms
proof (induction ls arbitrary: j w x)
  case Nil
  then show ?case by simp
next
  case (Cons l ls)
  show ?case
  proof (cases "strip l = []")
    case True
    with Cons.prems(2) have "stream_logs ls j = (w, x)" by simp
    with Cons.IH Cons.prems(1) show ?thesis by blast
  next
    case False
    define j1 where "j1 = append_log (strip l) j"
    from Cons.prems(1) have w1: "working j1" by (simp add: j1_def working_def append_log_def)
    show ?thesis
    proof (cases "parse_progress (strip l) (progress j1)")
      case (Inl e)
      with False Cons.prems(2) have "w = [j1]"
        by (simp add: j1_def Let_def)
      with w1 show ?thesis by (simp add: final_def)
    next
      case (Inr q)
      define j2 where "j2 = j1\<lparr>progress := q\<rparr>"
      from parse_progress_range [OF Inr] w1 have w2: "working j2"
        by (auto simp: j2_def working_def)
      obtain ws y where r: "stream_logs ls j2 = (ws, y)" by (cases "stream_logs ls j2")
      with False Cons.prems(2) Inr have w: "w = j1 # j2 # ws"
        by (simp add: j1_def j2_def Let_def)
      from Cons.IH [OF w2 r] w1 w2 w show ?thesis by (simp add: final_Cons)
    qed
  qed
qed

lemma yue_body_working:
  assumes "working j" "yue_body opts env j = (w, x)"
  shows "(\<forall>j' \<in> set w. working j') \<and> working (final j w)"
proof -
  obtain w1 x1 where p: "yue_prepare opts env j = (w1, x1)" by (cases "yue_prepare opts env j")
  from yue_prepare_working [OF assms(1) p]
  have p1: "\<forall>j' \<in> set w1. working j'" "working (final j w1)" by simp_all
  show ?thesis
  proof (cases x1)
    case (Some e)
    with assms(2) p have "w = w1" by (simp add: yue_body_def)
    with p1 show ?thesis by simp
  next
    case None
    obtain w2 x2 where q: "stream_logs (stdout_lines env) (final j w1) = (w2, x2)"
      by (cases "stream_logs (stdout_lines env) (final j w1)")
    with assms(2) p None have w: "w = w1 @ w2" by (simp add: yue_body_def)
    from stream_logs_working [OF p1(2) q] p1 w show ?thesis
      by (auto simp: final_append)
  qed
qed

text \<open>The shape of every run: the record as submitted, the write of the status, the
  writes of the body, and the three writes of the end or of the handler.\<close>

lemma observations_shape:
  fixes n now opts env
  defines "j0 \<equiv> new_job n now"
  defines "j1 \<equiv> j0\<lparr>status := Processing\<rparr>"
  defines "w \<equiv> fst (yue_body opts env j1)"
  defines "x \<equiv> snd (yue_body opts env j1)"
  shows "observations opts env j0 = j0 # j1 # w @ yue_end x (returncode env) (final j1 w)
    \<and> working j1 \<and> (\<forall>j' \<in> set w. working j') \<and> working (final j1 w)"
proof -
  have b: "yue_body opts env j1 = (w, x)" by (simp add: w_def x_def)
  have w1: "working j1" by (simp add: j1_def j0_def new_job_def working_def)
  from yue_body_working [OF w1 b]
  have "\<forall>j' \<in> set w. working j'" "working (final j1 w)"
    by simp_all
  moreover from b
  have "observations opts env j0 = j0 # j1 # w @ yue_end x (returncode env) (final j1 w)"
    by (simp add: observations_def run_yue_process_def j1_def Let_def)
  ultimately show ?thesis using w1 by simp
qed

lemma yue_handler_writes:
  "yue_handler e j =
     [j\<lparr>status := Failed\<rparr>,
      j\<lparr>status := Failed, error := Some (str_of e)\<rparr>,
      append_log (''EXCEPTION: '' @ str_of e) (j\<lparr>status := Failed, error := Some (str_of e)\<rparr>)]"
  by (simp add: yue_handler_def)

lemma yue_finish_writes:
  "yue_finish rc j =
     (if rc = 0 then
        [j\<lparr>status := Completed\<rparr>,
         j\<lparr>status := Completed, progress := 100\<rparr>,
         append_log ''Generation completed successfully.''
           (j\<lparr>status := Completed, progress := 100\<rparr>)]
      else
        [j\<lparr>status := Failed\<rparr>,
         j\<lparr>status := Failed, error := Some (''Process exited with code '' @ str_int rc)\<rparr>,
         append_log (''FAILED: Process exited with code '' @ str_int rc)
           (j\<lparr>status := Failed, error := Some (''Process exited with code '' @ str_int rc)\<rparr>)])"
  by (simp add: yue_finish_def)

lemma working_sound: "working j \<Longrightarrow> sound j"
  by (simp add: working_def sound_def)

lemma end_sound:
  assumes "working jf" "j \<in> set (yue_end x rc jf)"
  shows "sound j"
proof (cases x)
  case None
  with assms show ?thesis
    by (cases "rc = 0")
       (auto simp: yue_end_def yue_finish_writes append_log_def working_def sound_def)
next
  case (Some e)
  with assms show ?thesis
    by (auto simp: yue_end_def yue_handler_writes append_log_def working_def sound_def)
qed

lemma observation_sound:
  assumes "j \<in> set (observations opts env (new_job n now))"
  shows "sound j"
proof -
  define j1 where "j1 = (new_job n now)\<lparr>status := Processing\<rparr>"
  define w where "w = fst (yue_body opts env j1)"
  define x where "x = snd (yue_body opts env j1)"
  from observations_shape [where opts = opts and env = env and n = n and now = now]
  have sh: "observations opts env (new_job n now) =
      new_job n now # j1 # w @ yue_end x (returncode env) (final j1 w)"
    "working j1" "\<forall>j' \<in> set w. working j'" "working (final j1 w)"
    by (simp_all add: j1_def w_def x_def)
  have s0: "sound (new_job n now)" by (simp add: new_job_def sound_def)
  from assms sh(1) have "j = new_job n now \<or> j = j1 \<or> j \<in> set w
      \<or> j \<in> set (yue_end x (returncode env) (final j1 w))"
    by auto
  with s0 sh(2,3) end_sound [OF sh(4)] show ?thesis by (auto intro: working_sound)
qed

lemma map_status_working:
  "\<forall>j \<in> set w. working j \<Longrightarrow> map status w = replicate (length w) Processing"
  by (induction w) (auto simp: working_def)

lemma end_statuses:
  "\<exists>st. (st = Completed \<or> st = Failed) \<and> map status (yue_end x rc j) = replicate 3 st"
proof (cases x)
  case None
  then show ?thesis
    by (cases "rc = 0")
       (simp_all add: yue_end_def yue_finish_writes append_log_def eval_nat_numeral)
next
  case (Some e)
  then show ?thesis
    by (simp add: yue_end_def yue_handler_writes append_log_def eval_nat_numeral)
qed

lemma observations_statuses:
  "\<exists>k st. (st = Completed \<or> st = Failed) \<and>
     map status (observations opts env (new_job n now)) =
       Pending # replicate (Suc k) Processing @ replicate 3 st"
proof -
  define j1 where "j1 = (new_job n now)\<lparr>status := Processing\<rparr>"
  define w where "w = fst (yue_body opts env j1)"
  define x where "x = snd (yue_body opts env j1)"
  from observations_shape [where opts = opts and env = env and n = n and now = now]
  have sh: "observations opts env (new_job n now) =
      new_job n now # j1 # w @ yue_end x (returncode env) (final j1 w)"
    "working j1" "\<forall>j' \<in> set w. working j'" "working (final j1 w)"
    by (simp_all add: j1_def w_def x_def)
  from end_statuses [of x "returncode env" "final j1 w"] obtain st where
    st: "st = Completed \<or> st = Failed"
      "map status (yue_end x (returncode env) (final j1 w)) = replicate 3 st"
    by blast
  have "status (new_job n now) = Pending" "status j1 = Processing"
    by (simp_all add: j1_def new_job_def)
  with st(2) map_status_working [OF sh(3)]
  have eq: "map status (new_job n now # j1 # w @ yue_end x (returncode env) (final j1 w)) =
      Pending # replicate (Suc (length w)) Processing @ replicate 3 st"
    by simp
  show ?thesis
    unfolding sh(1) eq using st(1)
    by (intro exI [of _ "length w"] exI [of _ st] conjI refl)
qed

lemma end_last:
  "(x = Some e \<longrightarrow> status (last (yue_end x rc j)) = Failed
      \<and> error (last (yue_end x rc j)) = Some (str_of e)) \<and>
   (x = None \<and> rc \<noteq> 0 \<longrightarrow> status (last (yue_end x rc j)) = Failed \<and>
      error (last (yue_end x rc j)) = Some (''Process exited with code '' @ str_int rc)) \<and>
   (x = None \<and> rc = 0 \<longrightarrow> status (last (yue_end x rc j)) = Completed \<and>
      progress (last (yue_end x rc j)) = 100 \<and> error (last (yue_end x rc j)) = error j)"
  by (cases x) (simp_all add: yue_end_def yue_handler_writes yue_finish_writes append_log_def)

lemma end_nonempty: "yue_end x rc j \<noteq> []"
  by (cases x) (simp_all add: yue_end_def yue_handler_writes yue_finish_writes)

lemma observations_last:
  fixes n now opts env
  defines "j1 \<equiv> (new_job n now)\<lparr>status := Processing\<rparr>"
  defines "l \<equiv> last (observations opts env (new_job n now))"
  shows "(snd (yue_body opts env j1) = Some e \<longrightarrow>
            status l = Failed \<and> error l = Some (str_of e)) \<and>
         (snd (yue_body opts env j1) = None \<and> returncode env \<noteq> 0 \<longrightarrow>
            status l = Failed \<and>
            error l = Some (''Process exited with code '' @ str_int (returncode env))) \<and>
         (snd (yue_body opts env j1) = None \<and> returncode env = 0 \<longrightarrow>
            status l = Completed \<and> progress l = 100 \<and> error l = None)"
proof -
  define w where "w = fst (yue_body opts env j1)"
  define x where "x = snd (yue_body opts env j1)"
  from observations_shape [where opts = opts and env = env and n = n and now = now]
  have sh: "observations opts env (new_job n now) =
      new_job n now # j1 # w @ yue_end x (returncode env) (final j1 w)"
    "working j1" "\<forall>j' \<in> set w. working j'" "working (final j1 w)"
    by (simp_all add: j1_def w_def x_def)
  from sh(4) have e: "error (final j1 w) = None" by (simp add: working_def)
  have "l = last (yue_end x (returncode env) (final j1 w))"
    unfolding l_def sh(1) by (simp add: end_nonempty)
  with e end_last [of x e "returncode env" "final j1 w"] show ?thesis
    unfolding x_def by simp
qed

section \<open>Two runs worked out\<close>

lemmas run_defs =
  stub_env_def stub_task_def init_state_def new_task_def full_schedule_def sep_defs
  eval_nat_numeral

lemma full_run:
  "exec stub_env (init_state stub_task) full_schedule =
     Some \<lparr>task = stub_task\<lparr>status := Completed, progress := 100, result := Some stub_stems\<rparr>,
           runner = Finished Succeeded, ticker = Ended, current = 1, stop_progress = True\<rparr>"
  by (simp add: run_defs)

lemma run_to_L200:
  "exec stub_env (init_state stub_task)
     (replicate 12 Runner @ replicate 2 Ticker @ replicate 4 Runner) =
     Some \<lparr>task = stub_task\<lparr>status := Processing, progress := 1, result := Some stub_stems\<rparr>,
           runner = L200, ticker = Ended, current = 1, stop_progress = True\<rparr>"
  by (simp add: run_defs)

lemma stub_reachable:
  "exec stub_env (init_state stub_task) as = Some s \<Longrightarrow>
   reachable stub_env (new_task ''job-1'' ''song.mp3'' ''.mp3'') s"
  unfolding reachable_def stub_task_def by blast


lemma strip_stub:
  "strip ''Starting stage 1'' = ''Starting stage 1''"
  "strip ''Starting stage 2'' = ''Starting stage 2''"
  "strip ''2/50 [00:01<00:24]'' = ''2/50 [00:01<00:24]''"
  by (simp_all add: strip_def isspace_def)

lemma parse_stub:
  "parse_progress ''Starting stage 1'' p = Inr 10"
  "parse_progress ''Starting stage 2'' p = Inr 50"
  "parse_progress ''2/50 [00:01<00:24]'' p = Inr 11"
proof -
  have "token_match ''Starting stage 1'' = None" by (simp add: match_eval)
  then show "parse_progress ''Starting stage 1'' p = Inr 10"
    by (simp add: parse_progress_no_token)
  have "token_match ''Starting stage 2'' = None" by (simp add: match_eval)
  then show "parse_progress ''Starting stage 2'' p = Inr 50"
    by (simp add: parse_progress_no_token)
  have "token_match ''2/50 [00:01<00:24]'' = Some (2, 50)"
    and "\<not> segment_marker ''2/50 [00:01<00:24]''"
    by (simp_all add: match_eval)
  then show "parse_progress ''2/50 [00:01<00:24]'' p = Inr 11"
    by (simp add: parse_progress_def scale40_2_50)
qed

lemma stub_observations:
  "map progress (observations no_options stub_gen_env (new_job ''job-2'' 0)) =
     [0, 0, 0, 0, 2, 2, 5, 5, 5, 8, 8, 8, 10, 10, 50, 50, 11, 11, 100, 100]"
  by (simp add: observations_def run_yue_process_def yue_body_def yue_prepare_def yue_end_def
      yue_finish_def stub_gen_env_def new_job_def strip_stub parse_stub append_log_def
      final_def Let_def)


lemma run_to_L201:
  "exec stub_env (init_state stub_task)
     (replicate 12 Runner @ replicate 2 Ticker @ replicate 5 Runner) =
     Some \<lparr>task = stub_task\<lparr>status := Completed, progress := 1, result := Some stub_stems\<rparr>,
           runner = L201, ticker = Ended, current = 1, stop_progress = True\<rparr>"
  by (simp add: run_defs)

lemma run_to_L106:
  "exec stub_env (init_state stub_task) (replicate 8 Runner) =
     Some \<lparr>task = stub_task\<lparr>status := Processing, progress := 20\<rparr>,
           runner = L106, ticker = Not_started, current = 0, stop_progress = False\<rparr>"
  by (simp add: run_defs)

lemma run_to_L127:
  "exec stub_env (init_state stub_task) (replicate 9 Runner) =
     Some \<lparr>task = stub_task\<lparr>status := Processing, progress := 1\<rparr>,
           runner = L127, ticker = Not_started, current = 0, stop_progress = False\<rparr>"
  by (simp add: run_defs)

lemma run_cancelled_early:
  "exec stub_env (init_state stub_task) [Runner, Cancel_request] =
     Some \<lparr>task = stub_task\<lparr>status := Cancelled\<rparr>,
           runner = L76, ticker = Not_started, current = 0, stop_progress = False\<rparr>"
  "exec stub_env (init_state stub_task) [Runner, Cancel_request, Runner] =
     Some \<lparr>task = stub_task\<lparr>status := Cancelled, progress := 5\<rparr>,
           runner = L82, ticker = Not_started, current = 0, stop_progress = False\<rparr>"
  by (simp_all add: run_defs)

lemma run_cancelled_to_end:
  "exec stub_env (init_state stub_task)
     ([Runner, Cancel_request] @ replicate 11 Runner @ replicate 2 Ticker @ replicate 2 Runner) =
     Some \<lparr>task = stub_task\<lparr>status := Cancelled, progress := 1\<rparr>,
           runner = Finished Returned_cancelled, ticker = Ended, current = 1,
           stop_progress = True\<rparr>"
  by (simp add: run_defs)

lemma run_cancel_after_completion:
  "exec stub_env (init_state stub_task) (full_schedule @ [Cancel_request]) =
     Some \<lparr>task = stub_task\<lparr>status := Cancelled, progress := 100, result := Some stub_stems\<rparr>,
           runner = Finished Succeeded, ticker = Ended, current = 1, stop_progress = True\<rparr>"
  by (simp add: run_defs)

lemma run_cancel_before_start:
  "exec stub_env (init_state stub_task) [Cancel_request] =
     Some \<lparr>task = stub_task\<lparr>status := Cancelled\<rparr>,
           runner = L75, ticker = Not_started, current = 0, stop_progress = False\<rparr>"
  "exec stub_env (init_state stub_task) (Cancel_request # full_schedule) =
     Some \<lparr>task = stub_task\<lparr>status := Completed, progress := 100, result := Some stub_stems\<rparr>,
           runner = Finished Succeeded, ticker = Ended, current = 1, stop_progress = True\<rparr>"
  by (simp_all add: run_defs)

lemma run_failing:
  "exec (stub_env\<lparr>separate_result := Inl (Raised msg)\<rparr>) (init_state stub_task)
     (replicate 11 Runner) =
     Some \<lparr>task = stub_task\<lparr>status := Processing, progress := 1\<rparr>,
           runner = L138 (Some (Raised msg)), ticker = T113, current = 0,
           stop_progress = False\<rparr>"
  "exec (stub_env\<lparr>separate_result := Inl (Raised msg)\<rparr>) (init_state stub_task)
     (replicate 12 Runner @ replicate 2 Ticker @ replicate 2 Runner) =
     Some \<lparr>task = stub_task\<lparr>status := Failed, progress := 1\<rparr>,
           runner = L208 (Raised msg), ticker = Ended, current = 1, stop_progress = True\<rparr>"
  "exec (stub_env\<lparr>separate_result := Inl (Raised msg)\<rparr>) (init_state stub_task)
     (replicate 12 Runner @ replicate 2 Ticker @ replicate 3 Runner) =
     Some \<lparr>task = stub_task\<lparr>status := Failed, progress := 1, error := Some msg\<rparr>,
           runner = Finished (Failed_with (Raised msg)), ticker = Ended, current = 1,
           stop_progress = True\<rparr>"
  by (simp_all add: run_defs)

lemma stub_statuses:
  "map status (observations no_options stub_gen_env (new_job ''job-2'' 0)) =
     Pending # replicate 16 Processing @ replicate 3 Completed"
  by (simp add: observations_def run_yue_process_def yue_body_def yue_prepare_def yue_end_def
      yue_finish_def stub_gen_env_def new_job_def strip_stub parse_stub append_log_def
      final_def Let_def eval_nat_numeral)

lemma stub_last:
  "status (last (observations no_options stub_gen_env (new_job ''job-2'' 0))) = Completed"
  "progress (last (observations no_options stub_gen_env (new_job ''job-2'' 0))) = 100"
proof -
  have ne: "observations no_options stub_gen_env (new_job ''job-2'' 0) \<noteq> []"
    by (simp add: observations_def)
  have "status (last (observations no_options stub_gen_env (new_job ''job-2'' 0))) =
      last (map status (observations no_options stub_gen_env (new_job ''job-2'' 0)))"
    using ne by (simp add: last_map)
  then show "status (last (observations no_options stub_gen_env (new_job ''job-2'' 0))) = Completed"
    by (simp add: stub_statuses)
  have "progress (last (observations no_options stub_gen_env (new_job ''job-2'' 0))) =
      last (map progress (observations no_options stub_gen_env (new_job ''job-2'' 0)))"
    using ne by (simp add: last_map)
  then show "progress (last (observations no_options stub_gen_env (new_job ''job-2'' 0))) = 100"
    by (simp add: stub_observations)
qed

lemma run_failing_L132:
  "exec (stub_env\<lparr>separate_result := Inl (Raised msg)\<rparr>) (init_state stub_task)
     (replicate 10 Runner) =
     Some \<lparr>task = stub_task\<lparr>status := Processing, progress := 1\<rparr>,
           runner = L132, ticker = T113, current = 0, stop_progress = False\<rparr>"
  "exec (stub_env\<lparr>separate_result := Inl (Raised msg)\<rparr>)
     \<lparr>task = stub_task\<lparr>status := Processing, progress := 1\<rparr>,
      runner = L132, ticker = T113, current = 0, stop_progress = False\<rparr>
     (replicate 2 Runner @ replicate 2 Ticker @ replicate 3 Runner) =
     Some \<lparr>task = stub_task\<lparr>status := Failed, progress := 1, error := Some msg\<rparr>,
           runner = Finished (Failed_with (Raised msg)), ticker = Ended, current = 1,
           stop_progress = True\<rparr>"
  by (simp_all add: run_defs)

lemma str_int_1: "str_int 1 = ''1''"
  by (simp add: str_int_def) (subst str_nat.simps, simp add: digit_char_def)

lemma stub_body:
  "snd (yue_body no_options (stub_gen_env\<lparr>returncode := rc\<rparr>)
     ((new_job ''job-2'' 0)\<lparr>status := Processing\<rparr>)) = None"
  by (simp add: yue_body_def yue_prepare_def stub_gen_env_def new_job_def strip_stub
      parse_stub append_log_def final_def Let_def)
section \<open>The vocal-style prefix\<close>

text \<open>
  C9. The genre text handed to the generator is prefixed according to the vocal type
  (\<open>female\<close> when the option is absent): \<open>instrumental, \<close> for \<open>none\<close>, \<open>male vocals, \<close>
  for \<open>male\<close>, \<open>female vocals, \<close> for \<open>female\<close>, and only when the marker does not
  occur in the lower-cased genre text; any other vocal type leaves the text alone.
  The prefixed text mentions the marker, so prefixing a second time changes nothing:
  the marker is never put in twice.
\<close>

theorem process_vocal_style_prefix:
  "get_vocal_type (opts\<lparr>vocal_type := None\<rparr>) = ''female'' \<and>
   process_vocal_style (opts\<lparr>vocal_type := Some ''none''\<rparr>) g =
     (if sublist ''instrumental'' (lower g) then g else ''instrumental, '' @ g) \<and>
   process_vocal_style (opts\<lparr>vocal_type := Some ''male''\<rparr>) g =
     (if sublist ''male vocals'' (lower g) then g else ''male vocals, '' @ g) \<and>
   process_vocal_style (opts\<lparr>vocal_type := Some ''female''\<rparr>) g =
     (if sublist ''female vocals'' (lower g) then g else ''female vocals, '' @ g) \<and>
   process_vocal_style (opts\<lparr>vocal_type := None\<rparr>) g =
     process_vocal_style (opts\<lparr>vocal_type := Some ''female''\<rparr>) g \<and>
   process_vocal_style opts (process_vocal_style opts g) = process_vocal_style opts g"
proof -
  have "get_vocal_type (opts\<lparr>vocal_type := None\<rparr>) = ''female''"
    by (simp add: get_vocal_type_def)
  moreover have "process_vocal_style (opts\<lparr>vocal_type := Some ''none''\<rparr>) g =
     (if sublist ''instrumental'' (lower g) then g else ''instrumental, '' @ g)"
    by (simp add: process_vocal_style_def get_vocal_type_def contains_iff_sublist)
  moreover have "process_vocal_style (opts\<lparr>vocal_type := Some ''male''\<rparr>) g =
     (if sublist ''male vocals'' (lower g) then g else ''male vocals, '' @ g)"
    by (simp add: process_vocal_style_def get_vocal_type_def contains_iff_sublist)
  moreover have "process_vocal_style (opts\<lparr>vocal_type := Some ''female''\<rparr>) g =
     (if sublist ''female vocals'' (lower g) then g else ''female vocals, '' @ g)"
    by (simp add: process_vocal_style_def get_vocal_type_def contains_iff_sublist)
  moreover have "process_vocal_style (opts\<lparr>vocal_type := None\<rparr>) g =
     process_vocal_style (opts\<lparr>vocal_type := Some ''female''\<rparr>) g"
    by (simp add: process_vocal_style_def get_vocal_type_def)
  moreover have
    "process_vocal_style opts (process_vocal_style opts g) = process_vocal_style opts g"
    using contains_after_instrumental [of g] contains_after_male [of g]
      contains_after_female [of g]
    by (simp add: process_vocal_style_def Let_def)
  ultimately show ?thesis by blast
qed

section \<open>The progress update for one line of output\<close>




section \<open>Progress over the life of a job\<close>

text \<open>
  C1, as the code has it. Progress is an integer between 0 and 100 whenever a job is
  polled. For a separation job every write leaves progress at least as large as it was,
  with one exception: the runner's write of line 106, which sets it back from 20 to 1
  before the ticker starts; so the writes of the ticker and the final write of 100 never
  lower it. Once the runner has returned, progress does not change any more, whatever
  happens afterwards. For a generation job a run that ends with the status
  \<^verbatim>\<open>"completed"\<close> ends with progress 100, the largest value there is.
\<close>

theorem progress_range_and_writes:
  "(reachable env (new_task i f x) s \<longrightarrow>
      0 \<le> progress (task s) \<and> progress (task s) \<le> 100) \<and>
   (reachable env (new_task i f x) s \<and> step env s a = Some s' \<longrightarrow>
      progress (task s) \<le> progress (task s') \<or> (a = Runner \<and> runner s = L106)) \<and>
   (reachable env (new_task i f x) s \<and> runner s = Finished h \<and> exec env s as = Some s' \<longrightarrow>
      progress (task s') = progress (task s)) \<and>
   (j \<in> set (observations opts genv (new_job n now)) \<longrightarrow>
      0 \<le> progress j \<and> progress j \<le> 100) \<and>
   (status (last (observations opts genv (new_job n now))) = Completed \<longrightarrow>
      progress (last (observations opts genv (new_job n now))) = 100)"
proof -
  have "0 \<le> progress (task s) \<and> progress (task s) \<le> 100"
    if "reachable env (new_task i f x) s"
    using reachable_sep_inv [OF that] by (rule inv_progress_range)
  moreover
  have "progress (task s) \<le> progress (task s') \<or> (a = Runner \<and> runner s = L106)"
    if "reachable env (new_task i f x) s" "step env s a = Some s'"
    using reachable_sep_inv [OF that(1)] that(2) by (rule inv_step_monotone)
  moreover
  have "progress (task s') = progress (task s)"
    if "reachable env (new_task i f x) s" "runner s = Finished h" "exec env s as = Some s'"
    using finished_exec [OF reachable_sep_inv [OF that(1)] that(2,3)] by simp
  moreover
  have "0 \<le> progress j \<and> progress j \<le> 100"
    if "j \<in> set (observations opts genv (new_job n now))"
    using observation_sound [OF that] by (simp add: sound_def)
  moreover
  have "progress (last (observations opts genv (new_job n now))) = 100"
    if c: "status (last (observations opts genv (new_job n now))) = Completed"
  proof (cases "snd (yue_body opts genv ((new_job n now)\<lparr>status := Processing\<rparr>))")
    case None
    with c observations_last [of opts genv n now] show ?thesis
      by (cases "returncode genv = 0") auto
  next
    case (Some e)
    with c observations_last [of opts genv n now e] show ?thesis by auto
  qed
  ultimately show ?thesis by blast
qed

theorem progress_range_and_writes_witness:
  "(\<exists>s s'. exec stub_env (init_state stub_task)
               (replicate 12 Runner @ replicate 2 Ticker @ replicate 5 Runner) = Some s \<and>
            step stub_env s Runner = Some s' \<and>
            progress (task s) = 1 \<and> progress (task s') = 100 \<and>
            progress (task s) \<le> progress (task s') \<and>
            exec stub_env s' [Cancel_request, Cancel_request] \<noteq> None \<and>
            map_option (\<lambda>s. progress (task s)) (exec stub_env s' [Cancel_request, Cancel_request])
              = Some (progress (task s'))) \<and>
   progress (last (observations no_options stub_gen_env (new_job ''job-2'' 0))) = 100"
proof -
  define s where "s = \<lparr>task = stub_task\<lparr>status := Completed, progress := 1,
                              result := Some stub_stems\<rparr>,
           runner = L201, ticker = Ended, current = 1, stop_progress = True\<rparr>"
  define s' where "s' = goto (Finished Succeeded) (set_progress 100 s)"
  define s'' where "s'' = s'\<lparr>task := cancelled (task s')\<rparr>"
  have e: "exec stub_env (init_state stub_task)
             (replicate 12 Runner @ replicate 2 Ticker @ replicate 5 Runner) = Some s"
    unfolding s_def by (rule run_to_L201)
  have st: "step stub_env s Runner = Some s'" by (simp add: s_def s'_def)
  have ex: "exec stub_env s' [Cancel_request, Cancel_request] = Some s''"
    by (simp add: s''_def cancelled_def)
  note r = stub_reachable [OF e]
  from reachable_step [OF r st] have r': "reachable stub_env (new_task ''job-1'' ''song.mp3'' ''.mp3'') s'" .
  have f: "runner s' = Finished Succeeded" by (simp add: s'_def goto_def)
  note inst = progress_range_and_writes
    [where env = stub_env and i = "''job-1''" and f = "''song.mp3''" and x = "''.mp3''"]
  from inst [where s = s and a = Runner and s' = s'] r st
  have "progress (task s) \<le> progress (task s') \<or> runner s = L106" by blast
  then have m: "progress (task s) \<le> progress (task s')" by (simp add: s_def)
  from inst [where s = s' and h = Succeeded and as = "[Cancel_request, Cancel_request]"
      and s' = s''] r' f ex
  have fr: "progress (task s'') = progress (task s')" by blast
  from inst [where opts = no_options and genv = stub_gen_env and n = "''job-2''" and now = 0]
    stub_last(1)
  have g: "progress (last (observations no_options stub_gen_env (new_job ''job-2'' 0))) = 100"
    by blast
  have "progress (task s) = 1" "progress (task s') = 100"
    by (simp_all add: s_def s'_def goto_def set_progress_def)
  with e st m ex fr g show ?thesis by auto
qed

text \<open>
  Progress is not monotone over the life of a job, and not frozen once the status is
  terminal. A separation job shows 20 after the eighth statement of its runner and 1
  after the ninth. A generation job whose process prints a token line after
  \<open>Starting stage 2\<close> shows 50 and then 11. A job that is cancelled right after its
  runner has started shows the status \<^verbatim>\<open>"cancelled"\<close> with progress 0 and, one statement
  of the runner later, with progress 5.
\<close>

theorem progress_decreases:
  "map_option (\<lambda>s. progress (task s)) (exec stub_env (init_state stub_task) (replicate 8 Runner))
     = Some 20 \<and>
   map_option (\<lambda>s. progress (task s)) (exec stub_env (init_state stub_task) (replicate 9 Runner))
     = Some 1 \<and>
   map progress (observations no_options stub_gen_env (new_job ''job-2'' 0)) =
     [0, 0, 0, 0, 2, 2, 5, 5, 5, 8, 8, 8, 10, 10, 50, 50, 11, 11, 100, 100] \<and>
   map_option (\<lambda>s. (status (task s), progress (task s)))
     (exec stub_env (init_state stub_task) [Runner, Cancel_request]) = Some (Cancelled, 0) \<and>
   map_option (\<lambda>s. (status (task s), progress (task s)))
     (exec stub_env (init_state stub_task) [Runner, Cancel_request, Runner]) = Some (Cancelled, 5)"
proof -
  have "map_option (\<lambda>s. progress (task s))
      (exec stub_env (init_state stub_task) (replicate 8 Runner)) = Some 20"
    by (simp only: run_to_L106) simp
  moreover have "map_option (\<lambda>s. progress (task s))
      (exec stub_env (init_state stub_task) (replicate 9 Runner)) = Some 1"
    by (simp only: run_to_L127) simp
  moreover have "map_option (\<lambda>s. (status (task s), progress (task s)))
     (exec stub_env (init_state stub_task) [Runner, Cancel_request]) = Some (Cancelled, 0)"
    by (simp only: run_cancelled_early) (simp add: stub_task_def new_task_def)
  moreover have "map_option (\<lambda>s. (status (task s), progress (task s)))
     (exec stub_env (init_state stub_task) [Runner, Cancel_request, Runner]) = Some (Cancelled, 5)"
    by (simp only: run_cancelled_early) simp
  ultimately show ?thesis using stub_observations by blast
qed

section \<open>The transitions of the status\<close>

text \<open>
  C2, as the code has it. As long as nobody cancels, a step of the runner or of the
  ticker of a separation job leaves the status alone or takes it from \<^verbatim>\<open>"queued"\<close> to
  \<^verbatim>\<open>"processing"\<close> or from \<^verbatim>\<open>"processing"\<close> to \<^verbatim>\<open>"completed"\<close> or \<^verbatim>\<open>"failed"\<close>; and a
  status \<^verbatim>\<open>"completed"\<close> or \<^verbatim>\<open>"failed"\<close> is changed by no step but a cancellation. A
  cancellation request writes \<^verbatim>\<open>"cancelled"\<close> whatever the status is, also over a
  terminal one, and is the only step left once the runner has returned. A cancellation
  that is on record while the runner is between its write of \<^verbatim>\<open>"processing"\<close> and its
  test of line 142 is never followed by \<^verbatim>\<open>"completed"\<close>. A generation job, which cannot
  be cancelled, shows \<^verbatim>\<open>"pending"\<close>, then \<^verbatim>\<open>"processing"\<close>, then one of \<^verbatim>\<open>"completed"\<close>
  and \<^verbatim>\<open>"failed"\<close> to the end.
\<close>

theorem status_transitions:
  "(Cancel_request \<notin> set as \<and> exec env (init_state (new_task i f x)) as = Some s \<and>
    a \<noteq> Cancel_request \<and> step env s a = Some s' \<longrightarrow>
      status (task s') = status (task s)
      \<or> runner_transition (status (task s)) (status (task s'))) \<and>
   (reachable env (new_task i f x) s \<and>
    (status (task s) = Completed \<or> status (task s) = Failed) \<and>
    Cancel_request \<notin> set bs \<and> exec env s bs = Some s' \<longrightarrow>
      status (task s') = status (task s)) \<and>
   (step env s Cancel_request = Some s' \<longrightarrow> status (task s') = Cancelled) \<and>
   (reachable env (new_task i f x) s \<and> runner s = Finished h \<and> step env s a = Some s' \<longrightarrow>
      a = Cancel_request) \<and>
   (reachable env (new_task i f x) s \<and> status (task s) = Cancelled \<and>
    checkpoint_ahead (runner s) \<and> exec env s bs = Some s' \<longrightarrow>
      status (task s') \<noteq> Completed) \<and>
   (\<exists>k st. (st = Completed \<or> st = Failed) \<and>
      map status (observations opts genv (new_job n now)) =
        Pending # replicate (Suc k) Processing @ replicate 3 st)"
proof -
  have "status (task s') = status (task s)
      \<or> runner_transition (status (task s)) (status (task s'))"
    if "Cancel_request \<notin> set as" "exec env (init_state (new_task i f x)) as = Some s"
      "a \<noteq> Cancel_request" "step env s a = Some s'"
  proof -
    from that(2) have "reachable env (new_task i f x) s" unfolding reachable_def by blast
    then have "sep_inv s" by (rule reachable_sep_inv)
    moreover from that(1,2) have "status (task s) \<noteq> Cancelled" by (rule no_cancel_reachable)
    ultimately show ?thesis using that(3,4) by (rule inv_transition)
  qed
  moreover
  have "status (task s') = status (task s)"
    if "reachable env (new_task i f x) s" "status (task s) = Completed \<or> status (task s) = Failed"
      "Cancel_request \<notin> set bs" "exec env s bs = Some s'"
    using reachable_sep_inv [OF that(1)] that(2,3,4) by (rule terminal_stable_exec)
  moreover have "status (task s') = Cancelled" if "step env s Cancel_request = Some s'"
    using that by (auto simp: cancelled_def)
  moreover
  have "a = Cancel_request"
    if "reachable env (new_task i f x) s" "runner s = Finished h" "step env s a = Some s'"
    using inv_finished_step [OF reachable_sep_inv [OF that(1)] that(2,3)] by simp
  moreover
  have "status (task s') \<noteq> Completed"
    if "reachable env (new_task i f x) s" "status (task s) = Cancelled"
      "checkpoint_ahead (runner s)" "exec env s bs = Some s'"
  proof -
    from that(2,3) have "cancellation_holds s" by (simp add: cancellation_holds_def)
    with reachable_sep_inv [OF that(1)] have "cancellation_holds s'"
      using that(4) by (rule cancellation_holds_exec)
    then show ?thesis by (simp add: cancellation_holds_def)
  qed
  ultimately show ?thesis using observations_statuses [of opts genv n now] by blast
qed

theorem status_transitions_witness:
  "(\<exists>s s'. exec stub_env (init_state stub_task)
              (replicate 12 Runner @ replicate 2 Ticker @ replicate 4 Runner) = Some s \<and>
            step stub_env s Runner = Some s' \<and>
            status (task s) = Processing \<and> status (task s') = Completed \<and>
            runner_transition (status (task s)) (status (task s'))) \<and>
   (\<exists>s s'. exec stub_env (init_state stub_task) [Runner, Cancel_request] = Some s \<and>
            exec stub_env s (replicate 11 Runner @ replicate 2 Ticker @ replicate 2 Runner)
              = Some s' \<and>
            status (task s) = Cancelled \<and> runner s' = Finished Returned_cancelled \<and>
            status (task s') \<noteq> Completed)"
proof -
  define s where "s = \<lparr>task = stub_task\<lparr>status := Processing, progress := 1,
                              result := Some stub_stems\<rparr>,
           runner = L200, ticker = Ended, current = 1, stop_progress = True\<rparr>"
  define s' where "s' = goto L201 (set_status Completed s)"
  have e: "exec stub_env (init_state (new_task ''job-1'' ''song.mp3'' ''.mp3''))
             (replicate 12 Runner @ replicate 2 Ticker @ replicate 4 Runner) = Some s"
    unfolding s_def using run_to_L200 by (simp add: stub_task_def)
  have st: "step stub_env s Runner = Some s'" by (simp add: s_def s'_def)
  have nc: "Cancel_request \<notin> set (replicate 12 Runner @ replicate 2 Ticker @ replicate 4 Runner)"
    by simp
  have v: "status (task s) = Processing" "status (task s') = Completed"
    by (simp_all add: s_def s'_def goto_def set_status_def)
  note inst = status_transitions
    [where env = stub_env and i = "''job-1''" and f = "''song.mp3''" and x = "''.mp3''"]
  from inst [where as = "replicate 12 Runner @ replicate 2 Ticker @ replicate 4 Runner"
      and s = s and a = Runner and s' = s'] nc e st
  have "status (task s') = status (task s)
      \<or> runner_transition (status (task s)) (status (task s'))" by blast
  with v have t: "runner_transition (status (task s)) (status (task s'))" by simp
  define c where "c = \<lparr>task = stub_task\<lparr>status := Cancelled\<rparr>,
           runner = L76, ticker = Not_started, current = 0, stop_progress = False\<rparr>"
  define c' where "c' = \<lparr>task = stub_task\<lparr>status := Cancelled, progress := 1\<rparr>,
           runner = Finished Returned_cancelled, ticker = Ended, current = 1,
           stop_progress = True\<rparr>"
  have ec: "exec stub_env (init_state stub_task) [Runner, Cancel_request] = Some c"
    unfolding c_def by (rule run_cancelled_early)
  have "exec stub_env (init_state stub_task)
     ([Runner, Cancel_request] @ replicate 11 Runner @ replicate 2 Ticker @ replicate 2 Runner)
     = Some c'"
    unfolding c'_def by (rule run_cancelled_to_end)
  with ec have ec': "exec stub_env c (replicate 11 Runner @ replicate 2 Ticker @ replicate 2 Runner)
      = Some c'"
    by (simp only: exec_append option.case)
  have cv: "status (task c) = Cancelled" "checkpoint_ahead (runner c)"
    "runner c' = Finished Returned_cancelled"
    by (simp_all add: c_def c'_def)
  from inst [where s = c and s' = c'
      and bs = "replicate 11 Runner @ replicate 2 Ticker @ replicate 2 Runner"]
    stub_reachable [OF ec] cv(1,2) ec'
  have "status (task c') \<noteq> Completed" by blast
  with e st v t ec ec' cv show ?thesis unfolding stub_task_def by blast
qed

text \<open>
  The status does change after a terminal one has been written, and a cancellation can
  be followed by \<^verbatim>\<open>"completed"\<close>. A job that has run to the end shows \<^verbatim>\<open>"completed"\<close>
  and, after a cancellation request, \<^verbatim>\<open>"cancelled"\<close>. A job that is cancelled before its
  runner has executed its first statement shows \<^verbatim>\<open>"cancelled"\<close> and, after the same run,
  \<^verbatim>\<open>"completed"\<close>: line 75 overwrites the cancellation.
\<close>

theorem status_overwritten:
  "map_option (\<lambda>s. status (task s)) (exec stub_env (init_state stub_task) full_schedule)
     = Some Completed \<and>
   map_option (\<lambda>s. status (task s))
     (exec stub_env (init_state stub_task) (full_schedule @ [Cancel_request])) = Some Cancelled \<and>
   map_option (\<lambda>s. status (task s)) (exec stub_env (init_state stub_task) [Cancel_request])
     = Some Cancelled \<and>
   map_option (\<lambda>s. status (task s))
     (exec stub_env (init_state stub_task) (Cancel_request # full_schedule)) = Some Completed"
proof -
  have "map_option (\<lambda>s. status (task s)) (exec stub_env (init_state stub_task) full_schedule)
     = Some Completed"
    by (simp only: full_run) simp
  moreover have "map_option (\<lambda>s. status (task s))
     (exec stub_env (init_state stub_task) (full_schedule @ [Cancel_request])) = Some Cancelled"
    by (simp only: run_cancel_after_completion) simp
  moreover have "map_option (\<lambda>s. status (task s))
     (exec stub_env (init_state stub_task) [Cancel_request]) = Some Cancelled"
    by (simp only: run_cancel_before_start) simp
  moreover have "map_option (\<lambda>s. status (task s))
     (exec stub_env (init_state stub_task) (Cancel_request # full_schedule)) = Some Completed"
    by (simp only: run_cancel_before_start) simp
  ultimately show ?thesis by blast
qed

section \<open>Progress 100 is written by the completing transition only\<close>

text \<open>
  C7. In every state of a separation job that a poll can see, progress is 100 exactly
  when the runner has made its last write, the one of line 201 that follows the write of
  \<^verbatim>\<open>"completed"\<close>. The counter of the ticker never exceeds 95; a tick leaves it or adds
  1 to it, and after any step of the ticker progress is at most 95. For a generation
  job, a value read from a line and different from the one before is at most 90, and a
  record that shows progress 100 shows the status \<^verbatim>\<open>"completed"\<close>.
\<close>

theorem progress_100_only_at_completion:
  "(reachable env (new_task i f x) s \<longrightarrow>
      (progress (task s) = 100 \<longleftrightarrow> runner s = Finished Succeeded) \<and> current s \<le> 95) \<and>
   (reachable env (new_task i f x) s \<and> ticker_step s = Some s' \<longrightarrow>
      progress (task s') \<le> 95 \<and> (current s' = current s \<or> current s' = current s + 1)) \<and>
   (parse_progress line p = Inr q \<and> q \<noteq> p \<longrightarrow> q \<le> 90) \<and>
   (j \<in> set (observations opts genv (new_job n now)) \<and> progress j = 100 \<longrightarrow>
      status j = Completed)"
proof -
  have "(progress (task s) = 100 \<longleftrightarrow> runner s = Finished Succeeded) \<and> current s \<le> 95"
    if "reachable env (new_task i f x) s"
    using reachable_sep_inv [OF that] inv_progress_100 [of s] inv_current [of s] by blast
  moreover
  have "progress (task s') \<le> 95 \<and> (current s' = current s \<or> current s' = current s + 1)"
    if "reachable env (new_task i f x) s" "ticker_step s = Some s'"
    using reachable_sep_inv [OF that(1)] that(2) by (rule inv_ticker_step)
  moreover have "q \<le> 90" if "parse_progress line p = Inr q" "q \<noteq> p"
    using parse_progress_range [OF that(1)] that(2) by blast
  moreover have "status j = Completed"
    if "j \<in> set (observations opts genv (new_job n now))" "progress j = 100"
    using observation_sound [OF that(1)] that(2) by (simp add: sound_def)
  ultimately show ?thesis by blast
qed

theorem progress_100_only_at_completion_witness:
  "(\<exists>s. exec stub_env (init_state stub_task) full_schedule = Some s \<and>
         progress (task s) = 100 \<and> runner s = Finished Succeeded \<and> current s \<le> 95) \<and>
   (\<exists>s s'. exec stub_env (init_state stub_task) (replicate 11 Runner @ replicate 5 Ticker)
              = Some s \<and> ticker_step s = Some s' \<and> progress (task s') = 2
              \<and> current s' = current s) \<and>
   parse_progress ''2/50 [00:01<00:24]'' 50 = Inr 11 \<and>
   (\<exists>j \<in> set (observations no_options stub_gen_env (new_job ''job-2'' 0)).
      progress j = 100 \<and> status j = Completed)"
proof -
  define s1 where "s1 = \<lparr>task = stub_task\<lparr>status := Completed, progress := 100,
                               result := Some stub_stems\<rparr>,
           runner = Finished Succeeded, ticker = Ended, current = 1, stop_progress = True\<rparr>"
  have e1: "exec stub_env (init_state stub_task) full_schedule = Some s1"
    unfolding s1_def by (rule full_run)
  from progress_100_only_at_completion
    [where env = stub_env and i = "''job-1''" and f = "''song.mp3''" and x = "''.mp3''"
       and s = s1]
    stub_reachable [OF e1]
  have "progress (task s1) = 100 \<longleftrightarrow> runner s1 = Finished Succeeded" "current s1 \<le> 95"
    by blast+
  then have c1: "progress (task s1) = 100 \<and> runner s1 = Finished Succeeded \<and> current s1 \<le> 95"
    by (simp add: s1_def)
  define s2 where "s2 = \<lparr>task = stub_task\<lparr>status := Processing, progress := 1\<rparr>,
           runner = L138 None, ticker = T124, current = 2, stop_progress = False\<rparr>"
  have e2: "exec stub_env (init_state stub_task) (replicate 11 Runner @ replicate 5 Ticker)
      = Some s2"
    unfolding s2_def by (simp add: run_defs)
  have t2: "ticker_step s2 = Some ((set_progress 2 s2)\<lparr>ticker := T114\<rparr>)"
    by (simp add: s2_def)
  from progress_100_only_at_completion
    [where env = stub_env and i = "''job-1''" and f = "''song.mp3''" and x = "''.mp3''"
       and s = s2 and s' = "(set_progress 2 s2)\<lparr>ticker := T114\<rparr>"]
    stub_reachable [OF e2] t2
  have "progress (task ((set_progress 2 s2)\<lparr>ticker := T114\<rparr>)) \<le> 95" by blast
  then have c2: "progress (task ((set_progress 2 s2)\<lparr>ticker := T114\<rparr>)) = 2
      \<and> current ((set_progress 2 s2)\<lparr>ticker := T114\<rparr>) = current s2"
    by (simp add: set_progress_def)
  have c3: "parse_progress ''2/50 [00:01<00:24]'' 50 = Inr 11" by (rule parse_stub)
  define j where "j = last (observations no_options stub_gen_env (new_job ''job-2'' 0))"
  have m: "map progress (observations no_options stub_gen_env (new_job ''job-2'' 0)) \<noteq> []"
    by (simp add: stub_observations)
  then have ne: "observations no_options stub_gen_env (new_job ''job-2'' 0) \<noteq> []" by auto
  then have mem: "j \<in> set (observations no_options stub_gen_env (new_job ''job-2'' 0))"
    by (simp add: j_def)
  have "progress j = last (map progress (observations no_options stub_gen_env (new_job ''job-2'' 0)))"
    using ne by (simp add: j_def last_map)
  then have p: "progress j = 100" by (simp add: stub_observations)
  from progress_100_only_at_completion
    [where j = j and opts = no_options and genv = stub_gen_env and n = "''job-2''" and now = 0]
    mem p
  have "status j = Completed" by blast
  with mem p have c4: "\<exists>j \<in> set (observations no_options stub_gen_env (new_job ''job-2'' 0)).
      progress j = 100 \<and> status j = Completed" by blast
  from c1 e1 c2 e2 t2 c3 c4 show ?thesis by blast
qed

section \<open>The ticker is joined before the runner reports\<close>

text \<open>
  C8. Whenever the runner of a separation job is about to write a terminal status (line
  200 or line 207), or has done so, the ticker thread is not running: it was never
  started (the failure came before line 127), or the stop flag is set and the thread has
  ended, which is what \<^verbatim>\<open>stop_progress.set()\<close> and \<^verbatim>\<open>progress_thread.join()\<close> in the
  \<^verbatim>\<open>finally\<close> block bring about. On the successful path the ticker has always been
  started, stopped and joined. From such a state on the ticker makes no step at all in
  any schedule, so it writes nothing after the runner's terminal write.
\<close>

theorem ticker_joined_before_terminal_write:
  assumes "reachable env (new_task i f x) s" and "reports_terminal (runner s)"
  shows "(ticker s = Not_started \<or> (ticker s = Ended \<and> stop_progress s)) \<and>
         (runner s = L200 \<or> runner s = L201 \<or> runner s = Finished Succeeded \<longrightarrow>
            ticker s = Ended \<and> stop_progress s) \<and>
         ticker_step s = None \<and>
         (\<forall>as s'. exec env s as = Some s' \<longrightarrow> Ticker \<notin> set as \<and> ticker s' = ticker s)"
proof -
  from assms(1) have inv: "sep_inv s" by (rule reachable_sep_inv)
  from inv assms(2) have q: "ticker s = Not_started \<or> (ticker s = Ended \<and> stop_progress s)"
    by (rule inv_terminal_quiet)
  then have q': "ticker s = Not_started \<or> ticker s = Ended" by blast
  have "ticker s = Ended \<and> stop_progress s"
    if "runner s = L200 \<or> runner s = L201 \<or> runner s = Finished Succeeded"
    using inv that unfolding sep_inv_def by (auto simp: sep_defs)
  moreover from q' have "ticker_step s = None" by auto
  moreover have "Ticker \<notin> set as \<and> ticker s' = ticker s" if "exec env s as = Some s'" for as s'
    using assms(2) q' that by (rule quiet_exec)
  ultimately show ?thesis using q by blast
qed

theorem ticker_joined_before_terminal_write_witness:
  "\<exists>s. exec stub_env (init_state stub_task)
          (replicate 12 Runner @ replicate 2 Ticker @ replicate 4 Runner) = Some s \<and>
        runner s = L200 \<and> status (task s) = Processing \<and>
        ticker s = Ended \<and> stop_progress s \<and> ticker_step s = None"
proof -
  define s where "s = \<lparr>task = stub_task\<lparr>status := Processing, progress := 1,
                              result := Some stub_stems\<rparr>,
           runner = L200, ticker = Ended, current = 1, stop_progress = True\<rparr>"
  have e: "exec stub_env (init_state stub_task)
          (replicate 12 Runner @ replicate 2 Ticker @ replicate 4 Runner) = Some s"
    unfolding s_def by (rule run_to_L200)
  then have r: "reachable stub_env (new_task ''job-1'' ''song.mp3'' ''.mp3'') s"
    by (rule stub_reachable)
  have t: "reports_terminal (runner s)" by (simp add: s_def)
  from ticker_joined_before_terminal_write [OF r t]
  have "ticker s = Ended \<and> stop_progress s \<and> ticker_step s = None"
    by (simp add: s_def)
  moreover have "runner s = L200" "status (task s) = Processing"
    by (simp_all add: s_def)
  ultimately show ?thesis using e by blast
qed

section \<open>Result and error against the status\<close>

text \<open>
  C3, as the code has it. For a separation job, at every poll: result and error are
  never both set; neither is set while the status is \<^verbatim>\<open>"queued"\<close>; no error is set while
  it is \<^verbatim>\<open>"processing"\<close>; a record that shows \<^verbatim>\<open>"completed"\<close> has its result and no
  error; a record that shows \<^verbatim>\<open>"failed"\<close> has no result and, once the runner has
  returned, has its error; an error is set only under \<^verbatim>\<open>"failed"\<close> or \<^verbatim>\<open>"cancelled"\<close>.
  When nobody has cancelled and the runner has returned, the result is set exactly when
  the status is \<^verbatim>\<open>"completed"\<close> and the error exactly when it is \<^verbatim>\<open>"failed"\<close>. The record
  of a generation job has no result field; its error is set only under \<^verbatim>\<open>"failed"\<close>,
  and a run that ends in \<^verbatim>\<open>"failed"\<close> ends with the error set.
\<close>

theorem result_error_population:
  "(reachable env (new_task i f x) s \<longrightarrow>
      \<not> (result (task s) \<noteq> None \<and> error (task s) \<noteq> None) \<and>
      (status (task s) = Queued \<longrightarrow> result (task s) = None \<and> error (task s) = None) \<and>
      (status (task s) = Processing \<longrightarrow> error (task s) = None) \<and>
      (status (task s) = Completed \<longrightarrow> result (task s) \<noteq> None \<and> error (task s) = None) \<and>
      (status (task s) = Failed \<longrightarrow> result (task s) = None) \<and>
      (error (task s) \<noteq> None \<longrightarrow> status (task s) = Failed \<or> status (task s) = Cancelled) \<and>
      (runner s = Finished h \<and> status (task s) = Failed \<longrightarrow> error (task s) \<noteq> None)) \<and>
   (Cancel_request \<notin> set as \<and> exec env (init_state (new_task i f x)) as = Some s \<and>
    runner s = Finished h \<longrightarrow>
      (result (task s) \<noteq> None \<longleftrightarrow> status (task s) = Completed) \<and>
      (error (task s) \<noteq> None \<longleftrightarrow> status (task s) = Failed)) \<and>
   (j \<in> set (observations opts genv (new_job n now)) \<longrightarrow>
      (error j \<noteq> None \<longrightarrow> status j = Failed) \<and> (status j \<noteq> Failed \<longrightarrow> error j = None)) \<and>
   (status (last (observations opts genv (new_job n now))) = Failed \<longrightarrow>
      error (last (observations opts genv (new_job n now))) \<noteq> None)"
proof -
  have p1: "\<not> (result (task s) \<noteq> None \<and> error (task s) \<noteq> None) \<and>
      (status (task s) = Queued \<longrightarrow> result (task s) = None \<and> error (task s) = None) \<and>
      (status (task s) = Processing \<longrightarrow> error (task s) = None) \<and>
      (status (task s) = Completed \<longrightarrow> result (task s) \<noteq> None \<and> error (task s) = None) \<and>
      (status (task s) = Failed \<longrightarrow> result (task s) = None) \<and>
      (error (task s) \<noteq> None \<longrightarrow> status (task s) = Failed \<or> status (task s) = Cancelled) \<and>
      (runner s = Finished h \<and> status (task s) = Failed \<longrightarrow> error (task s) \<noteq> None)"
    if "reachable env (new_task i f x) s"
    using reachable_sep_inv [OF that] by (rule inv_population)
  have p2: "(result (task s) \<noteq> None \<longleftrightarrow> status (task s) = Completed) \<and>
      (error (task s) \<noteq> None \<longleftrightarrow> status (task s) = Failed)"
    if "Cancel_request \<notin> set as" "exec env (init_state (new_task i f x)) as = Some s"
      "runner s = Finished h"
  proof -
    from that(2) have "reachable env (new_task i f x) s" unfolding reachable_def by blast
    then have "sep_inv s" by (rule reachable_sep_inv)
    moreover from that(1,2) have "status (task s) \<noteq> Cancelled" by (rule no_cancel_reachable)
    ultimately show ?thesis using that(3) inv_finished_population by blast
  qed
  have p3: "(error j \<noteq> None \<longrightarrow> status j = Failed) \<and> (status j \<noteq> Failed \<longrightarrow> error j = None)"
    if "j \<in> set (observations opts genv (new_job n now))"
    using observation_sound [OF that] by (auto simp: sound_def)
  have p4: "error (last (observations opts genv (new_job n now))) \<noteq> None"
    if c: "status (last (observations opts genv (new_job n now))) = Failed"
  proof (cases "snd (yue_body opts genv ((new_job n now)\<lparr>status := Processing\<rparr>))")
    case None
    with c observations_last [of opts genv n now] show ?thesis
      by (cases "returncode genv = 0") auto
  next
    case (Some e)
    with c observations_last [of opts genv n now e] show ?thesis by auto
  qed
  from p1 p2 p3 p4 show ?thesis by blast
qed

theorem result_error_population_witness:
  "(\<exists>s. exec stub_env (init_state stub_task) full_schedule = Some s \<and>
         status (task s) = Completed \<and> result (task s) \<noteq> None \<and> error (task s) = None) \<and>
   (\<exists>s. exec (stub_env\<lparr>separate_result := Inl (Raised ''out of memory'')\<rparr>)
           (init_state stub_task)
           (replicate 12 Runner @ replicate 2 Ticker @ replicate 3 Runner) = Some s \<and>
         status (task s) = Failed \<and> error (task s) \<noteq> None \<and> result (task s) = None) \<and>
   error (last (observations no_options stub_gen_env (new_job ''job-2'' 0))) = None"
proof -
  define s1 where "s1 = \<lparr>task = stub_task\<lparr>status := Completed, progress := 100,
                               result := Some stub_stems\<rparr>,
           runner = Finished Succeeded, ticker = Ended, current = 1, stop_progress = True\<rparr>"
  have e1: "exec stub_env (init_state (new_task ''job-1'' ''song.mp3'' ''.mp3'')) full_schedule
      = Some s1"
    unfolding s1_def using full_run by (simp add: stub_task_def)
  have n1: "Cancel_request \<notin> set full_schedule" by (simp add: full_schedule_def)
  have v1: "status (task s1) = Completed" "runner s1 = Finished Succeeded"
    by (simp_all add: s1_def)
  from result_error_population
    [where env = stub_env and i = "''job-1''" and f = "''song.mp3''" and x = "''.mp3''"
       and as = full_schedule and s = s1 and h = Succeeded, THEN conjunct2, THEN conjunct1]
    n1 e1 v1
  have c1: "result (task s1) \<noteq> None \<and> error (task s1) = None" by simp
  define fenv where "fenv = stub_env\<lparr>separate_result := Inl (Raised ''out of memory'')\<rparr>"
  define s2 where "s2 = \<lparr>task = stub_task\<lparr>status := Failed, progress := 1,
                               error := Some ''out of memory''\<rparr>,
           runner = Finished (Failed_with (Raised ''out of memory'')), ticker = Ended,
           current = 1, stop_progress = True\<rparr>"
  have e2: "exec fenv (init_state (new_task ''job-1'' ''song.mp3'' ''.mp3''))
      (replicate 12 Runner @ replicate 2 Ticker @ replicate 3 Runner) = Some s2"
    unfolding s2_def fenv_def using run_failing(3) [of "''out of memory''"]
    by (simp add: stub_task_def)
  then have r2: "reachable fenv (new_task ''job-1'' ''song.mp3'' ''.mp3'') s2"
    unfolding reachable_def by blast
  have v2: "status (task s2) = Failed" "runner s2 = Finished (Failed_with (Raised ''out of memory''))"
    by (simp_all add: s2_def)
  from result_error_population
    [where env = fenv and i = "''job-1''" and f = "''song.mp3''" and x = "''.mp3''"
       and s = s2 and h = "Failed_with (Raised ''out of memory'')", THEN conjunct1] r2 v2
  have c2: "error (task s2) \<noteq> None \<and> result (task s2) = None" by blast
  define j where "j = last (observations no_options stub_gen_env (new_job ''job-2'' 0))"
  have "observations no_options stub_gen_env (new_job ''job-2'' 0) \<noteq> []"
    by (simp add: observations_def)
  then have mem: "j \<in> set (observations no_options stub_gen_env (new_job ''job-2'' 0))"
    by (simp add: j_def)
  have sj: "status j \<noteq> Failed" by (simp add: j_def stub_last)
  from result_error_population
    [where j = j and opts = no_options and genv = stub_gen_env and n = "''job-2''" and now = 0,
      THEN conjunct2, THEN conjunct2, THEN conjunct1]
    mem sj
  have c3: "error j = None" by blast
  from e1 v1 c1 e2 v2 c2 c3 show ?thesis
    unfolding fenv_def j_def stub_task_def by blast
qed

text \<open>
  The two writes of an outcome are separate statements, and a cancellation can follow
  them. After line 192 and before line 200 a separation job shows its result under the
  status \<^verbatim>\<open>"processing"\<close>; after line 207 and before line 208 a failing job shows
  \<^verbatim>\<open>"failed"\<close> without an error; and a job cancelled after it has completed shows
  \<^verbatim>\<open>"cancelled"\<close> with its result.
\<close>

theorem result_without_completed:
  "map_option (\<lambda>s. (status (task s), result (task s) \<noteq> None))
     (exec stub_env (init_state stub_task)
        (replicate 12 Runner @ replicate 2 Ticker @ replicate 4 Runner))
     = Some (Processing, True) \<and>
   map_option (\<lambda>s. (status (task s), error (task s)))
     (exec (stub_env\<lparr>separate_result := Inl (Raised ''out of memory'')\<rparr>)
        (init_state stub_task)
        (replicate 12 Runner @ replicate 2 Ticker @ replicate 2 Runner))
     = Some (Failed, None) \<and>
   map_option (\<lambda>s. (status (task s), result (task s) \<noteq> None))
     (exec stub_env (init_state stub_task) (full_schedule @ [Cancel_request]))
     = Some (Cancelled, True)"
proof -
  have "map_option (\<lambda>s. (status (task s), result (task s) \<noteq> None))
     (exec stub_env (init_state stub_task)
        (replicate 12 Runner @ replicate 2 Ticker @ replicate 4 Runner))
     = Some (Processing, True)"
    by (simp only: run_to_L200) simp
  moreover have "map_option (\<lambda>s. (status (task s), error (task s)))
     (exec (stub_env\<lparr>separate_result := Inl (Raised ''out of memory'')\<rparr>)
        (init_state stub_task)
        (replicate 12 Runner @ replicate 2 Ticker @ replicate 2 Runner))
     = Some (Failed, None)"
    by (simp only: run_failing) (simp add: stub_task_def new_task_def)
  moreover have "map_option (\<lambda>s. (status (task s), result (task s) \<noteq> None))
     (exec stub_env (init_state stub_task) (full_schedule @ [Cancel_request]))
     = Some (Cancelled, True)"
    by (simp only: run_cancel_after_completion) simp
  ultimately show ?thesis by blast
qed

section \<open>Failures end in the record\<close>

text \<open>
  C5, as the code has it. When a statement of the separation runner raises an
  exception \<open>e\<close>, every run from there in which the runner returns has it return
  through the handler: the error of the record is \<^verbatim>\<open>str(e)\<close> and the status is
  \<^verbatim>\<open>"failed"\<close>, or \<^verbatim>\<open>"cancelled"\<close> if a cancellation was requested as well; without a
  cancellation request it is \<^verbatim>\<open>"failed"\<close>. Whenever the runner has returned the status
  is terminal. A failing import is reported with the fixed text of line 90, which is
  not empty. For a generation job, an exception \<open>e\<close> inside the \<^verbatim>\<open>try\<close> ends the run
  with the status \<^verbatim>\<open>"failed"\<close> and the error \<^verbatim>\<open>str(e)\<close>, and an exit code \<open>c\<close> other
  than 0 ends it with \<^verbatim>\<open>"failed"\<close> and the error \<open>Process exited with code c\<close>. The
  text \<^verbatim>\<open>str(e)\<close> is the one the exception carries; nothing makes it non-empty.
\<close>

theorem failures_are_recorded:
  "(reachable env (new_task i f x) s \<and> raises_at env (runner s) = Some e \<and>
    exec env s as = Some s' \<and> runner s' = Finished h \<longrightarrow>
      h = Failed_with e \<and> error (task s') = Some (str_of e) \<and>
      (status (task s') = Failed \<or> status (task s') = Cancelled)) \<and>
   (Cancel_request \<notin> set as \<and> exec env (init_state (new_task i f x)) as = Some s \<and>
    runner s = Finished (Failed_with e) \<longrightarrow>
      status (task s) = Failed \<and> error (task s) = Some (str_of e)) \<and>
   (reachable env (new_task i f x) s \<and> runner s = Finished h \<longrightarrow>
      status (task s) = Completed \<or> status (task s) = Failed \<or> status (task s) = Cancelled) \<and>
   (import_fault env = Some (ImportError m) \<longrightarrow>
      raises_at env L88 = Some (ImportError import_error_message)) \<and>
   str_of (ImportError import_error_message) \<noteq> [] \<and>
   (snd (yue_body opts genv ((new_job n now)\<lparr>status := Processing\<rparr>)) = Some e \<longrightarrow>
      status (last (observations opts genv (new_job n now))) = Failed \<and>
      error (last (observations opts genv (new_job n now))) = Some (str_of e)) \<and>
   (snd (yue_body opts genv ((new_job n now)\<lparr>status := Processing\<rparr>)) = None \<and>
    returncode genv \<noteq> 0 \<longrightarrow>
      status (last (observations opts genv (new_job n now))) = Failed \<and>
      error (last (observations opts genv (new_job n now))) =
        Some (''Process exited with code '' @ str_int (returncode genv)))"
proof -
  have p1: "h = Failed_with e \<and> error (task s') = Some (str_of e) \<and>
      (status (task s') = Failed \<or> status (task s') = Cancelled)"
    if "reachable env (new_task i f x) s" "raises_at env (runner s) = Some e"
      "exec env s as = Some s'" "runner s' = Finished h"
  proof -
    from that(2) have "on_its_way env e s" by (simp add: on_its_way_def)
    then have "on_its_way env e s'" using that(3) by (rule on_its_way_exec)
    with that(4) have h: "h = Failed_with e" by (simp add: on_its_way_def)
    from that(1,3) have "reachable env (new_task i f x) s'" by (rule reachable_exec)
    then have "sep_inv s'" by (rule reachable_sep_inv)
    with that(4) h inv_failed_record [of s' e] show ?thesis by simp
  qed
  have p2: "status (task s) = Failed \<and> error (task s) = Some (str_of e)"
    if "Cancel_request \<notin> set as" "exec env (init_state (new_task i f x)) as = Some s"
      "runner s = Finished (Failed_with e)"
  proof -
    from that(2) have "reachable env (new_task i f x) s" unfolding reachable_def by blast
    then have "sep_inv s" by (rule reachable_sep_inv)
    moreover from that(1,2) have "status (task s) \<noteq> Cancelled" by (rule no_cancel_reachable)
    ultimately show ?thesis using that(3) inv_failed_record [of s e] by blast
  qed
  have p3: "status (task s) = Completed \<or> status (task s) = Failed \<or> status (task s) = Cancelled"
    if "reachable env (new_task i f x) s" "runner s = Finished h"
    using reachable_sep_inv [OF that(1)] that(2) by (rule inv_finished_terminal)
  have p4: "raises_at env L88 = Some (ImportError import_error_message)"
    if "import_fault env = Some (ImportError m)"
    using that by simp
  have p5: "str_of (ImportError import_error_message) \<noteq> []"
    by (simp add: import_error_message_def)
  from p1 p2 p3 p4 p5 observations_last [of opts genv n now e] show ?thesis by blast
qed

theorem failures_are_recorded_witness:
  "(\<exists>s s'. exec (stub_env\<lparr>separate_result := Inl (Raised ''out of memory'')\<rparr>)
              (init_state stub_task) (replicate 10 Runner) = Some s \<and>
            runner s = L132 \<and>
            exec (stub_env\<lparr>separate_result := Inl (Raised ''out of memory'')\<rparr>) s
              (replicate 2 Runner @ replicate 2 Ticker @ replicate 3 Runner) = Some s' \<and>
            runner s' = Finished (Failed_with (Raised ''out of memory'')) \<and>
            status (task s') = Failed \<and> error (task s') = Some ''out of memory'') \<and>
   status (last (observations no_options (stub_gen_env\<lparr>returncode := 1\<rparr>)
                  (new_job ''job-2'' 0))) = Failed \<and>
   error (last (observations no_options (stub_gen_env\<lparr>returncode := 1\<rparr>)
                  (new_job ''job-2'' 0))) = Some ''Process exited with code 1''"
proof -
  define fenv where "fenv = stub_env\<lparr>separate_result := Inl (Raised ''out of memory'')\<rparr>"
  define s where "s = \<lparr>task = stub_task\<lparr>status := Processing, progress := 1\<rparr>,
           runner = L132, ticker = T113, current = 0, stop_progress = False\<rparr>"
  define s' where "s' = \<lparr>task = stub_task\<lparr>status := Failed, progress := 1,
                               error := Some ''out of memory''\<rparr>,
           runner = Finished (Failed_with (Raised ''out of memory'')), ticker = Ended,
           current = 1, stop_progress = True\<rparr>"
  have e: "exec fenv (init_state stub_task) (replicate 10 Runner) = Some s"
    unfolding fenv_def s_def by (rule run_failing_L132)
  have e': "exec fenv s (replicate 2 Runner @ replicate 2 Ticker @ replicate 3 Runner) = Some s'"
    unfolding fenv_def s_def s'_def by (rule run_failing_L132)
  from e have r: "reachable fenv (new_task ''job-1'' ''song.mp3'' ''.mp3'') s"
    unfolding reachable_def stub_task_def by blast
  have ra: "raises_at fenv (runner s) = Some (Raised ''out of memory'')"
    by (simp add: fenv_def s_def stub_env_def)
  have f: "runner s' = Finished (Failed_with (Raised ''out of memory''))" "runner s = L132"
    "status (task s') = Failed"
    by (simp_all add: s'_def s_def)
  from failures_are_recorded
    [where env = fenv and i = "''job-1''" and f = "''song.mp3''" and x = "''.mp3''"
       and s = s and e = "Raised ''out of memory''" and s' = s'
       and as = "replicate 2 Runner @ replicate 2 Ticker @ replicate 3 Runner"
       and h = "Failed_with (Raised ''out of memory'')", THEN conjunct1] r ra e' f(1)
  have "error (task s') = Some (str_of (Raised ''out of memory''))" by blast
  then have c1: "error (task s') = Some ''out of memory''" by simp
  have rc: "returncode (stub_gen_env\<lparr>returncode := 1\<rparr>) \<noteq> 0" by simp
  from failures_are_recorded
    [where opts = no_options and genv = "stub_gen_env\<lparr>returncode := 1\<rparr>"
       and n = "''job-2''" and now = 0, THEN conjunct2, THEN conjunct2, THEN conjunct2,
      THEN conjunct2, THEN conjunct2, THEN conjunct2] stub_body [of 1] rc
  have "status (last (observations no_options (stub_gen_env\<lparr>returncode := 1\<rparr>)
                  (new_job ''job-2'' 0))) = Failed \<and>
      error (last (observations no_options (stub_gen_env\<lparr>returncode := 1\<rparr>)
                  (new_job ''job-2'' 0))) =
        Some (''Process exited with code '' @ str_int (returncode (stub_gen_env\<lparr>returncode := 1\<rparr>)))"
    by blast
  then have c2: "status (last (observations no_options (stub_gen_env\<lparr>returncode := 1\<rparr>)
                  (new_job ''job-2'' 0))) = Failed \<and>
      error (last (observations no_options (stub_gen_env\<lparr>returncode := 1\<rparr>)
                  (new_job ''job-2'' 0))) = Some ''Process exited with code 1''"
    by (simp add: str_int_1)
  from e e' f c1 c2 show ?thesis unfolding fenv_def by blast
qed

text \<open>
  The message is not always a diagnostic: an exception raised without a text, such as
  a bare \<^verbatim>\<open>assert\<close> inside the separator, leaves the job \<^verbatim>\<open>"failed"\<close> with the empty
  string as its error.
\<close>

theorem empty_error_message:
  "map_option (\<lambda>s. (status (task s), error (task s)))
     (exec (stub_env\<lparr>separate_result := Inl (Raised [])\<rparr>) (init_state stub_task)
        (replicate 12 Runner @ replicate 2 Ticker @ replicate 3 Runner))
     = Some (Failed, Some [])"
  by (simp only: run_failing) simp

section \<open>Submission\<close>

text \<open>
  C6, as the code has it. A submission stores, under the identifier that
  \<^verbatim>\<open>uuid.uuid4()\<close> has drawn, a record with progress 0 and neither result nor error, and
  returns the identifier; the record is stored before the runner thread is started, so
  it is the first value a poll can see. For a separation job the status of the record is
  \<^verbatim>\<open>"queued"\<close> and there is no log. For a generation job the status is \<^verbatim>\<open>"pending"\<close> and
  the log is empty. A submission that fails before the record is stored (copying the
  upload, writing the prompt files) stores nothing.
\<close>

theorem submission_creates_initial_record:
  "separate_audio tasks new_id upload_name sfx None =
     Inr (new_id, tasks(new_id \<mapsto>
            new_task new_id upload_name (if sfx = [] then ''.mp3'' else sfx))) \<and>
   separate_audio tasks new_id upload_name sfx (Some e) = Inl e \<and>
   status (new_task new_id upload_name ext) = Queued \<and>
   progress (new_task new_id upload_name ext) = 0 \<and>
   result (new_task new_id upload_name ext) = None \<and>
   error (new_task new_id upload_name ext) = None \<and>
   task (init_state (new_task new_id upload_name ext)) = new_task new_id upload_name ext \<and>
   runner (init_state (new_task new_id upload_name ext)) = L75 \<and>
   ticker (init_state (new_task new_id upload_name ext)) = Not_started \<and>
   start_generation_job jobs new_id now None genre_txt lyrics_txt options =
     Inr (new_id, jobs(new_id \<mapsto> new_job new_id now),
          process_vocal_style (case options of None \<Rightarrow> no_options | Some opts \<Rightarrow> opts) genre_txt,
          lyrics_txt) \<and>
   start_generation_job jobs new_id now (Some e) genre_txt lyrics_txt options = Inl e \<and>
   status (new_job new_id now) = Pending \<and>
   progress (new_job new_id now) = 0 \<and>
   logs (new_job new_id now) = [] \<and>
   error (new_job new_id now) = None \<and>
   hd (observations opts genv (new_job new_id now)) = new_job new_id now"
  by (simp add: separate_audio_def start_generation_job_def new_task_def new_job_def
      init_state_def observations_def)

theorem submission_creates_initial_record_witness:
  "separate_audio Map.empty ''job-1'' ''song.mp3'' ''.mp3'' None =
     Inr (''job-1'', [''job-1'' \<mapsto> stub_task]) \<and>
   status stub_task = Queued \<and> progress stub_task = 0 \<and>
   start_generation_job Map.empty ''job-2'' 0 None ''pop'' ''la la'' None =
     Inr (''job-2'', [''job-2'' \<mapsto> new_job ''job-2'' 0], ''female vocals, pop'', ''la la'')"
proof -
  have g: "process_vocal_style no_options ''pop'' = ''female vocals, pop''"
    by (simp add: process_vocal_style_def get_vocal_type_def no_options_def lower_def
        lower_char_def upper_letters_def lower_letters_def)
  from submission_creates_initial_record
    [where tasks = Map.empty and new_id = "''job-1''" and upload_name = "''song.mp3''"
       and sfx = "''.mp3''" and ext = "''.mp3''"]
  have "separate_audio Map.empty ''job-1'' ''song.mp3'' ''.mp3'' None =
     Inr (''job-1'', [''job-1'' \<mapsto> stub_task]) \<and>
   status stub_task = Queued \<and> progress stub_task = 0"
    by (simp add: stub_task_def)
  moreover from submission_creates_initial_record
    [where jobs = Map.empty and new_id = "''job-2''" and now = 0 and genre_txt = "''pop''"
       and lyrics_txt = "''la la''" and options = None]
  have "start_generation_job Map.empty ''job-2'' 0 None ''pop'' ''la la'' None =
     Inr (''job-2'', [''job-2'' \<mapsto> new_job ''job-2'' 0], ''female vocals, pop'', ''la la'')"
    by (simp add: g)
  ultimately show ?thesis by blast
qed

text \<open>
  The record of a generation job does not start with the status \<^verbatim>\<open>"queued"\<close>: it is
  stored with \<^verbatim>\<open>"pending"\<close>.
\<close>

theorem generation_starts_pending:
  "(case start_generation_job Map.empty ''job-2'' 0 None ''pop'' ''la la'' None of
      Inl e \<Rightarrow> None
    | Inr (i, jobs, g, l) \<Rightarrow> map_option status (jobs i)) = Some Pending \<and>
   Pending \<noteq> Queued"
  by (simp add: start_generation_job_def)

end
